theory Spec2Isabelle
  imports Complex_Main
begin

section \<open>Text\<close>

text \<open>
  The program is one Python script, \<^verbatim>\<open>expense_tracker_ai.py\<close>. A Python \<^verbatim>\<open>str\<close> is a
  sequence of Unicode code points, so a text is modelled as a list of code points; the
  rupee sign of the amount pattern is the single code point 8377 (U+20B9).
  \<open>ascii\<close> turns a literal of ASCII characters into such a text.
\<close>

type_synonym pystr = "nat list"

definition ascii :: "string \<Rightarrow> pystr" where
  "ascii s = map of_char s"

text \<open>
  Two character classes come from the Unicode database of the Python runtime, which is
  not part of the repository: the white space of \<^verbatim>\<open>str.strip\<close> and of \<^verbatim>\<open>\s\<close>, and the
  decimal digits of \<^verbatim>\<open>\d\<close> and of \<^verbatim>\<open>float\<close>. The decimal digits come in runs of ten
  consecutive code points; \<open>decimal_zeros\<close> lists the first code point of every run.
\<close>

definition unicode_spaces :: "nat list" where
  "unicode_spaces =
     [9, 10, 11, 12, 13, 28, 29, 30, 31, 32, 133, 160, 5760,
      8192, 8193, 8194, 8195, 8196, 8197, 8198, 8199, 8200, 8201, 8202,
      8232, 8233, 8239, 8287, 12288]"

definition is_space :: "nat \<Rightarrow> bool" where
  "is_space c = (c \<in> set unicode_spaces)"

definition decimal_zeros :: "nat list" where
  "decimal_zeros =
     [48, 1632, 1776, 1984, 2406, 2534, 2662, 2790, 2918, 3046, 3174, 3302, 3430,
      3558, 3664, 3792, 3872, 4160, 4240, 6112, 6160, 6470, 6608, 6784, 6800, 6992,
      7088, 7232, 7248, 42528, 43216, 43264, 43472, 43504, 43600, 44016, 65296,
      66720, 68912, 69734, 69872, 69942, 70096, 70384, 70736, 70864, 71248, 71360,
      71472, 71904, 72016, 72784, 73040, 73120, 92768, 92864, 93008, 120782, 120792,
      120802, 120812, 120822, 123200, 123632, 125264, 130032]"

definition decimal_value :: "nat \<Rightarrow> nat option" where
  "decimal_value c =
     (case find (\<lambda>z. z \<le> c \<and> c < z + 10) decimal_zeros of
        None \<Rightarrow> None
      | Some z \<Rightarrow> Some (c - z))"

definition is_decimal :: "nat \<Rightarrow> bool" where
  "is_decimal c = (decimal_value c \<noteq> None)"

text \<open>\<^verbatim>\<open>s.split(',')\<close>: the pieces between the commas (code point 44); never empty.\<close>

fun split_comma :: "pystr \<Rightarrow> pystr list" where
  "split_comma [] = [[]]"
| "split_comma (c # cs) =
     (if c = 44 then [] # split_comma cs
      else (case split_comma cs of
              [] \<Rightarrow> [[c]]
            | w # ws \<Rightarrow> (c # w) # ws))"

text \<open>\<^verbatim>\<open>s.strip()\<close>: white space removed at both ends.\<close>

definition strip :: "pystr \<Rightarrow> pystr" where
  "strip s = rev (dropWhile is_space (rev (dropWhile is_space s)))"

section \<open>Floating-point values and \<^verbatim>\<open>float(str)\<close>\<close>

text \<open>
  A Python \<^verbatim>\<open>float\<close> is an IEEE-754 double: a finite number, an infinity or a NaN. A
  finite double is modelled by the rational number it denotes; the sign of zero is not
  modelled.
\<close>

datatype pyfloat = Fin rat | PosInf | NegInf | NaN

text \<open>
  The exceptions of the script. \<open>DivisionByZero\<close> is the division of the total by the
  number of records, \<open>CollaboratorError\<close> an exception raised inside the classifier
  and \<open>ChartError\<close> one raised inside a chart call, whatever their Python classes.
\<close>

datatype error =
  ValueError | KeyError | IndexError | DivisionByZero | CollaboratorError | ChartError

text \<open>
  Every arithmetic result, and the value of every literal that \<^verbatim>\<open>float\<close> reads, is
  rounded to the nearest double, a tie going to the even significand. A double is
  \<open>m * 2 ^ e\<close> with \<open>m < 2 ^ 53\<close> and \<open>- 1074 \<le> e\<close>; a result that rounds to
  \<open>2 ^ 1024\<close> or more becomes an infinity. \<open>bit_length n\<close> is the number of binary
  digits of \<open>n\<close>, and \<open>ilog2 a\<close> the exponent of the greatest power of two that is at
  most \<open>a\<close>, for a positive \<open>a\<close>.
\<close>

fun bit_length :: "nat \<Rightarrow> nat" where
  "bit_length n = (if n = 0 then 0 else Suc (bit_length (n div 2)))"

declare bit_length.simps [simp del]

definition ilog2 :: "rat \<Rightarrow> int" where
  "ilog2 a =
     (if 1 \<le> a then int (bit_length (nat \<lfloor>a\<rfloor>)) - 1
      else - int (bit_length (nat (\<lceil>1 / a\<rceil> - 1))))"

definition round_half_even :: "rat \<Rightarrow> int" where
  "round_half_even x =
     (let f = \<lfloor>x\<rfloor>; r = x - of_int f
      in if r < 1 / 2 then f
         else if 1 / 2 < r then f + 1
         else if even f then f else f + 1)"

definition round_double :: "rat \<Rightarrow> pyfloat" where
  "round_double q =
     (if q = 0 then Fin 0
      else (let a = \<bar>q\<bar>;
                e = max (ilog2 a - 52) (- 1074);
                m = round_half_even (a / 2 powi e);
                v = of_int m * 2 powi e
            in if 2 ^ 1024 \<le> v then (if 0 < q then PosInf else NegInf)
               else Fin (if 0 < q then v else - v)))"

definition fneg :: "pyfloat \<Rightarrow> pyfloat" where
  "fneg x = (case x of Fin q \<Rightarrow> Fin (- q) | PosInf \<Rightarrow> NegInf | NegInf \<Rightarrow> PosInf | NaN \<Rightarrow> NaN)"

definition ascii_digit :: "nat \<Rightarrow> bool" where
  "ascii_digit c = (48 \<le> c \<and> c \<le> 57)"

definition float_space :: "nat \<Rightarrow> bool" where
  "float_space c = (c \<in> set [9, 10, 11, 12, 13, 32])"

text \<open>
  \<^verbatim>\<open>float\<close> first rewrites its argument to ASCII: a code point below 127 stays, any other
  white space becomes a blank, any other decimal digit becomes the ASCII digit of its
  value, and anything else becomes a question mark, which no literal contains
  (\<open>None\<close> here).
\<close>

fun to_ascii :: "pystr \<Rightarrow> pystr option" where
  "to_ascii [] = Some []"
| "to_ascii (c # cs) =
     (if c < 127 then map_option ((#) c) (to_ascii cs)
      else if is_space c then map_option ((#) 32) (to_ascii cs)
      else (case decimal_value c of
              None \<Rightarrow> None
            | Some d \<Rightarrow> map_option ((#) (48 + d)) (to_ascii cs)))"

definition float_strip :: "pystr \<Rightarrow> pystr" where
  "float_strip s = rev (dropWhile float_space (rev (dropWhile float_space s)))"

text \<open>
  An underscore (95) is allowed only between two digits. \<open>prev\<close> is the character
  before the rest being scanned, 0 at the start.
\<close>

fun underscores_ok :: "nat \<Rightarrow> pystr \<Rightarrow> bool" where
  "underscores_ok prev [] = (prev \<noteq> 95)"
| "underscores_ok prev (c # cs) =
     ((if c = 95 then ascii_digit prev else (prev = 95 \<longrightarrow> ascii_digit c))
      \<and> underscores_ok c cs)"

definition digits_value :: "pystr \<Rightarrow> nat" where
  "digits_value ds = foldl (\<lambda>n c. 10 * n + (c - 48)) 0 ds"

definition pow10 :: "int \<Rightarrow> rat" where
  "pow10 k = (if 0 \<le> k then 10 ^ nat k else 1 / 10 ^ nat (- k))"

text \<open>
  The exponent part \<^verbatim>\<open>[eE][+-]?digits\<close>. Without a digit after the \<^verbatim>\<open>e\<close> nothing is
  consumed and the exponent is 0.
\<close>

definition parse_exponent :: "pystr \<Rightarrow> int \<times> pystr" where
  "parse_exponent s =
     (case s of
        [] \<Rightarrow> (0, s)
      | c # r \<Rightarrow>
          if c = 101 \<or> c = 69 then
            (let (neg, r1) =
                   (case r of
                      [] \<Rightarrow> (False, r)
                    | x # r' \<Rightarrow>
                        if x = 45 then (True, r')
                        else if x = 43 then (False, r')
                        else (False, r));
                 ds = takeWhile ascii_digit r1
             in if ds = [] then (0, s)
                else ((if neg then - int (digits_value ds) else int (digits_value ds)),
                      dropWhile ascii_digit r1))
          else (0, s))"

text \<open>
  An unsigned decimal literal: digits, an optional point (46) with more digits, an
  optional exponent; at least one digit before or after the point, and nothing left
  over. Its value is the double nearest to the decimal number written.
\<close>

definition parse_number :: "pystr \<Rightarrow> error + pyfloat" where
  "parse_number s =
     (let ip = takeWhile ascii_digit s;
          r1 = dropWhile ascii_digit s;
          (fp, r2) =
            (case r1 of
               [] \<Rightarrow> ([], r1)
             | c # r \<Rightarrow>
                 if c = 46 then (takeWhile ascii_digit r, dropWhile ascii_digit r)
                 else ([], r1))
      in if ip @ fp = [] then Inl ValueError
         else (let (e, r3) = parse_exponent r2
               in if r3 \<noteq> [] then Inl ValueError
                  else Inr (round_double (of_nat (digits_value (ip @ fp))
                                          * pow10 (e - int (length fp))))))"

definition ascii_lower :: "nat \<Rightarrow> nat" where
  "ascii_lower c = (if 65 \<le> c \<and> c \<le> 90 then c + 32 else c)"

definition parse_inf_nan :: "pystr \<Rightarrow> error + pyfloat" where
  "parse_inf_nan s =
     (let l = map ascii_lower s
      in if l = ascii ''inf'' \<or> l = ascii ''infinity'' then Inr PosInf
         else if l = ascii ''nan'' then Inr NaN
         else Inl ValueError)"

definition parse_unsigned :: "pystr \<Rightarrow> error + pyfloat" where
  "parse_unsigned s =
     (case s of
        [] \<Rightarrow> Inl ValueError
      | c # r \<Rightarrow> if ascii_digit c \<or> c = 46 then parse_number s else parse_inf_nan s)"

definition parse_float :: "pystr \<Rightarrow> error + pyfloat" where
  "parse_float s =
     (case s of
        [] \<Rightarrow> Inl ValueError
      | c # r \<Rightarrow>
          if c = 45 then map_sum id fneg (parse_unsigned r)
          else if c = 43 then parse_unsigned r
          else parse_unsigned s)"

text \<open>\<^verbatim>\<open>float(s)\<close> for a text \<open>s\<close>; \<open>Inl ValueError\<close> is the exception.\<close>

definition py_float :: "pystr \<Rightarrow> error + pyfloat" where
  "py_float s =
     (case to_ascii s of
        None \<Rightarrow> Inl ValueError
      | Some a \<Rightarrow>
          (let t = float_strip a
           in if underscores_ok 0 t then parse_float (filter (\<lambda>c. c \<noteq> 95) t)
              else Inl ValueError))"

section \<open>The amount extractor\<close>

text \<open>
  \<^verbatim>\<open>re.search(r"(?:R|INR)?\s?(\d+[.,]?\d*)", text)\<close>, where \<^verbatim>\<open>R\<close> stands for the
  rupee sign. \<open>number_group\<close> is the capturing group matched greedily at the head of a
  text. \<open>opt_currency\<close> and \<open>opt_space\<close> list what is left of the text after each way
  the optional prefix can match, in the order the backtracking matcher tries them:
  the longer match first.
\<close>

definition number_group :: "pystr \<Rightarrow> pystr option" where
  "number_group s =
     (let d1 = takeWhile is_decimal s;
          r1 = dropWhile is_decimal s
      in if d1 = [] then None
         else (case r1 of
                 [] \<Rightarrow> Some d1
               | c # r \<Rightarrow>
                   if c = 46 \<or> c = 44 then Some (d1 @ c # takeWhile is_decimal r)
                   else Some d1))"

definition opt_currency :: "pystr \<Rightarrow> pystr list" where
  "opt_currency s =
     (case s of [] \<Rightarrow> [] | c # r \<Rightarrow> if c = 8377 then [r] else [])
     @ (if take 3 s = ascii ''INR'' then [drop 3 s] else [])
     @ [s]"

definition opt_space :: "pystr \<Rightarrow> pystr list" where
  "opt_space s = (case s of [] \<Rightarrow> [] | c # r \<Rightarrow> if is_space c then [r] else []) @ [s]"

fun first_some :: "('a \<Rightarrow> 'b option) \<Rightarrow> 'a list \<Rightarrow> 'b option" where
  "first_some f [] = None"
| "first_some f (x # xs) = (case f x of Some y \<Rightarrow> Some y | None \<Rightarrow> first_some f xs)"

definition match_here :: "pystr \<Rightarrow> pystr option" where
  "match_here s = first_some number_group (concat (map opt_space (opt_currency s)))"

text \<open>The leftmost match: group 1 of the first position where the pattern matches.\<close>

fun re_search :: "pystr \<Rightarrow> pystr option" where
  "re_search [] = match_here []"
| "re_search (c # cs) =
     (case match_here (c # cs) of
        Some g \<Rightarrow> Some g
      | None \<Rightarrow> re_search cs)"

definition extract_amount :: "pystr \<Rightarrow> error + pyfloat" where
  "extract_amount text =
     (case re_search text of
        Some g \<Rightarrow> py_float g
      | None \<Rightarrow> Inr (Fin 0))"

section \<open>The expense store and the three handlers\<close>

text \<open>
  A record of the store is the Python dictionary with the keys \<^verbatim>\<open>Description\<close>,
  \<^verbatim>\<open>Amount\<close> and \<^verbatim>\<open>Category\<close>; the store is the list
  \<^verbatim>\<open>st.session_state.expenses\<close>.
\<close>

record expense =
  Description :: pystr
  Amount :: pyfloat
  Category :: pystr

type_synonym store = "expense list"

definition CATEGORY_LABELS :: "pystr list" where
  "CATEGORY_LABELS =
     map ascii [''Food'', ''Transport'', ''Utilities'', ''Entertainment'', ''Shopping'',
                ''Healthcare'', ''Others'']"

text \<open>
  What a handler shows to the user (\<^verbatim>\<open>st.sidebar.error\<close>, \<^verbatim>\<open>st.success\<close>,
  \<^verbatim>\<open>st.warning\<close>), with the values its message is formatted from:
  \<^item> \<open>AmountsMustBeNumeric\<close>: error "Amounts must be numeric.";
  \<^item> \<open>CountsMustMatch\<close>: error "Number of categories and amounts must match.";
  \<^item> \<open>ManualAdded\<close>: success "Manual expenses added!";
  \<^item> \<open>AIAdded amount category\<close>: success "Added (amount) under '(category)'";
  \<^item> \<open>Cleared\<close>: success "All previous expenses have been deleted. ...";
  \<^item> \<open>BudgetExceeded budget total\<close>: warning "Budget Exceeded! ...";
  \<^item> \<open>WithinBudget budget\<close>: success "You're within your budget of (budget)!".
\<close>

datatype notice =
    AmountsMustBeNumeric
  | CountsMustMatch
  | ManualAdded
  | AIAdded pyfloat pystr
  | Cleared
  | BudgetExceeded rat pyfloat
  | WithinBudget rat

definition is_error :: "notice \<Rightarrow> bool" where
  "is_error n = (n = AmountsMustBeNumeric \<or> n = CountsMustMatch)"

text \<open>
  \<^verbatim>\<open>[float(amount.strip()) for amount in ...]\<close>: the first \<^verbatim>\<open>float\<close> that raises ends
  the comprehension with its exception.
\<close>

fun float_all :: "pystr list \<Rightarrow> error + pyfloat list" where
  "float_all [] = Inr []"
| "float_all (a # as) =
     (case py_float (strip a) of
        Inl e \<Rightarrow> Inl e
      | Inr x \<Rightarrow> (case float_all as of Inl e \<Rightarrow> Inl e | Inr xs \<Rightarrow> Inr (x # xs)))"

text \<open>
  The handler of the button "Add Manual Expenses". \<^verbatim>\<open>float\<close> raises nothing but
  \<^verbatim>\<open>ValueError\<close> (lemma \<open>py_float_error\<close> below), so the \<^verbatim>\<open>except ValueError\<close> catches
  every exception of the comprehension.
\<close>

definition add_manual :: "pystr \<Rightarrow> pystr \<Rightarrow> store \<Rightarrow> notice list \<times> store" where
  "add_manual categories_input amounts_input expenses =
     (let categories = map strip (split_comma categories_input);
          (shown, amounts) =
            (case float_all (split_comma amounts_input) of
               Inl e \<Rightarrow> ([AmountsMustBeNumeric], [])
             | Inr xs \<Rightarrow> ([], xs))
      in if length categories \<noteq> length amounts
         then (shown @ [CountsMustMatch], expenses)
         else (shown @ [ManualAdded],
               expenses @
               map (\<lambda>(cat, amt).
                      \<lparr>Description = ascii ''Manual: '' @ cat, Amount = amt, Category = cat\<rparr>)
                   (zip categories amounts)))"

text \<open>
  The classifier is an external collaborator (a pretrained model), so it is a parameter:
  a function of the text and the candidate labels that either raises (\<open>Inl\<close>) or
  returns a result. The script only tests the result for truth and reads
  \<^verbatim>\<open>result["labels"][0]\<close>: \<open>Falsy\<close> is any result that counts as false (\<^verbatim>\<open>None\<close>, an
  empty dictionary), \<open>Truthy None\<close> a true one without the key \<^verbatim>\<open>labels\<close>, and
  \<open>Truthy (Some ls)\<close> a true one whose \<^verbatim>\<open>labels\<close> entry is the list \<open>ls\<close>.
\<close>

datatype cls_result = Falsy | Truthy "pystr list option"

type_synonym classifier = "pystr \<Rightarrow> pystr list \<Rightarrow> error + cls_result"

definition classify_category :: "classifier \<Rightarrow> pystr \<Rightarrow> error + pystr" where
  "classify_category classifier text =
     (case classifier text CATEGORY_LABELS of
        Inl e \<Rightarrow> Inl e
      | Inr Falsy \<Rightarrow> Inr (ascii ''Others'')
      | Inr (Truthy None) \<Rightarrow> Inl KeyError
      | Inr (Truthy (Some [])) \<Rightarrow> Inl IndexError
      | Inr (Truthy (Some (l # ls))) \<Rightarrow> Inr l)"

text \<open>
  The handler of the button "Add AI-Predicted Expense"; it does nothing for an empty
  text. An exception of the extractor or of the classifier leaves the handler before
  the \<^verbatim>\<open>append\<close>.
\<close>

definition add_ai :: "classifier \<Rightarrow> pystr \<Rightarrow> store \<Rightarrow> error + notice list \<times> store" where
  "add_ai classifier user_input expenses =
     (if user_input = [] then Inr ([], expenses)
      else (case extract_amount user_input of
              Inl e \<Rightarrow> Inl e
            | Inr amount \<Rightarrow>
                (case classify_category classifier user_input of
                   Inl e \<Rightarrow> Inl e
                 | Inr category \<Rightarrow>
                     Inr ([AIAdded amount category],
                          expenses @
                          [\<lparr>Description = user_input, Amount = amount,
                            Category = category\<rparr>]))))"

definition clear_all :: "store \<Rightarrow> notice list \<times> store" where
  "clear_all expenses = ([Cleared], [])"

text \<open>
  One user action is one run of the script with one button pressed. An exception ends
  the run; the session and its store live on, so the next action starts from the store
  as the failed run left it, which for these handlers is the store it started with.
\<close>

datatype action = AddManual pystr pystr | AddAI pystr | ClearAll

fun handle :: "classifier \<Rightarrow> action \<Rightarrow> store \<Rightarrow> error + notice list \<times> store" where
  "handle classifier (AddManual categories_input amounts_input) expenses =
     Inr (add_manual categories_input amounts_input expenses)"
| "handle classifier (AddAI user_input) expenses = add_ai classifier user_input expenses"
| "handle classifier ClearAll expenses = Inr (clear_all expenses)"

definition store_after :: "classifier \<Rightarrow> store \<Rightarrow> action \<Rightarrow> store" where
  "store_after classifier expenses a =
     (case handle classifier a expenses of
        Inl e \<Rightarrow> expenses
      | Inr (shown, expenses') \<Rightarrow> expenses')"

definition run :: "classifier \<Rightarrow> action list \<Rightarrow> store \<Rightarrow> store" where
  "run classifier as expenses = foldl (store_after classifier) expenses as"

text \<open>Four stand-ins for the classifier: one that raises, one that returns nothing,
  one that returns a result with an empty list of labels, and one that ranks
  \<^verbatim>\<open>Food\<close> first.\<close>

definition failing_classifier :: classifier where
  "failing_classifier text labels = Inl CollaboratorError"

definition empty_classifier :: classifier where
  "empty_classifier text labels = Inr Falsy"

definition no_labels_classifier :: classifier where
  "no_labels_classifier text labels = Inr (Truthy (Some []))"

definition food_classifier :: classifier where
  "food_classifier text labels = Inr (Truthy (Some labels))"

section \<open>Aggregation\<close>

text \<open>
  Arithmetic on doubles. \<open>fadd\<close> is \<^verbatim>\<open>+\<close>, the exact sum rounded; \<open>fgt\<close> is \<^verbatim>\<open>>\<close>, which
  is exact and false as soon as one side is a NaN.
\<close>

fun fadd :: "pyfloat \<Rightarrow> pyfloat \<Rightarrow> pyfloat" where
  "fadd (Fin a) (Fin b) = round_double (a + b)"
| "fadd NaN y = NaN"
| "fadd x NaN = NaN"
| "fadd PosInf NegInf = NaN"
| "fadd NegInf PosInf = NaN"
| "fadd PosInf y = PosInf"
| "fadd x PosInf = PosInf"
| "fadd NegInf y = NegInf"
| "fadd x NegInf = NegInf"

fun fgt :: "pyfloat \<Rightarrow> pyfloat \<Rightarrow> bool" where
  "fgt (Fin a) (Fin b) = (a > b)"
| "fgt NaN y = False"
| "fgt x NaN = False"
| "fgt x PosInf = False"
| "fgt PosInf y = True"
| "fgt NegInf y = False"
| "fgt x NegInf = True"

text \<open>
  The \<^verbatim>\<open>sum()\<close> of a column of the data frame skips the NaN entries. Both the data frame
  library and its summation are outside the repository; the model adds from left to
  right and rounds every addition, while the library is free to add in another order
  or with a correction term. The theorems about the value of a sum are therefore
  stated for stores whose amounts add up without rounding (\<open>exact_store\<close> below), for
  which every such way of adding gives the same double. \<open>total_spent\<close> is the script's
  variable \<^verbatim>\<open>total\<close>, a name the library already uses for relations.
\<close>

definition sum_skipna :: "pyfloat list \<Rightarrow> pyfloat" where
  "sum_skipna xs = foldl fadd (Fin 0) (filter (\<lambda>x. x \<noteq> NaN) xs)"

definition total_spent :: "store \<Rightarrow> pyfloat" where
  "total_spent expenses = sum_skipna (map Amount expenses)"

text \<open>
  \<^verbatim>\<open>groupby("Category")\<close> lists every category once, in ascending order of the strings
  (code point by code point), and sums the amounts of its records.
\<close>

fun str_less :: "pystr \<Rightarrow> pystr \<Rightarrow> bool" where
  "str_less [] [] = False"
| "str_less [] (y # ys) = True"
| "str_less (x # xs) [] = False"
| "str_less (x # xs) (y # ys) = (x < y \<or> (x = y \<and> str_less xs ys))"

fun insert_key :: "pystr \<Rightarrow> pystr list \<Rightarrow> pystr list" where
  "insert_key k [] = [k]"
| "insert_key k (x # xs) =
     (if k = x then x # xs
      else if str_less k x then k # x # xs
      else x # insert_key k xs)"

definition group_keys :: "store \<Rightarrow> pystr list" where
  "group_keys expenses = foldr insert_key (map Category expenses) []"

definition group_sum :: "store \<Rightarrow> pystr \<Rightarrow> pyfloat" where
  "group_sum expenses k =
     sum_skipna (map Amount (filter (\<lambda>r. Category r = k) expenses))"

definition grouped :: "store \<Rightarrow> (pystr \<times> pyfloat) list" where
  "grouped expenses = map (\<lambda>k. (k, group_sum expenses k)) (group_keys expenses)"

text \<open>
  \<^verbatim>\<open>sort_values(by="Amount", ascending=False)\<close>: descending, a NaN sum last. The library
  does not fix the order of rows with equal sums; this model keeps them in the order
  of \<open>grouped\<close>, and no theorem below depends on that choice.
\<close>

definition sorts_before :: "pyfloat \<Rightarrow> pyfloat \<Rightarrow> bool" where
  "sorts_before x y = (x \<noteq> NaN \<and> (y = NaN \<or> fgt x y))"

fun insert_desc :: "pystr \<times> pyfloat \<Rightarrow> (pystr \<times> pyfloat) list \<Rightarrow> (pystr \<times> pyfloat) list" where
  "insert_desc e [] = [e]"
| "insert_desc e (y # ys) =
     (if sorts_before (snd y) (snd e) then y # insert_desc e ys else e # y # ys)"

definition sort_desc :: "(pystr \<times> pyfloat) list \<Rightarrow> (pystr \<times> pyfloat) list" where
  "sort_desc es = foldr insert_desc es []"

definition summary :: "store \<Rightarrow> (pystr \<times> pyfloat) list" where
  "summary expenses = sort_desc (grouped expenses)"

text \<open>
  \<open>fdiv\<close> is \<^verbatim>\<open>/\<close> on doubles, the exact quotient rounded. \<open>fdiv_nat\<close> is
  \<^verbatim>\<open>total / len(df)\<close>: the integer is converted to a double first. A zero divisor is
  made visible as \<open>DivisionByZero\<close> (the numeric library would warn and give a NaN or
  an infinity).
\<close>

fun fdiv :: "pyfloat \<Rightarrow> pyfloat \<Rightarrow> pyfloat" where
  "fdiv (Fin a) (Fin b) =
     (if b = 0 then (if a = 0 then NaN else if 0 < a then PosInf else NegInf)
      else round_double (a / b))"
| "fdiv NaN y = NaN"
| "fdiv x NaN = NaN"
| "fdiv (Fin a) y = Fin 0"
| "fdiv PosInf (Fin b) = (if 0 \<le> b then PosInf else NegInf)"
| "fdiv NegInf (Fin b) = (if 0 \<le> b then NegInf else PosInf)"
| "fdiv x y = NaN"

definition fdiv_nat :: "pyfloat \<Rightarrow> nat \<Rightarrow> error + pyfloat" where
  "fdiv_nat x n =
     (if n = 0 then Inl DivisionByZero
      else Inr (fdiv x (round_double (of_nat n))))"

text \<open>\<^verbatim>\<open>summary.iloc[0]\<close>: the first row, an \<^verbatim>\<open>IndexError\<close> when there is none.\<close>

definition iloc0 :: "'a list \<Rightarrow> error + 'a" where
  "iloc0 rows = (case rows of [] \<Rightarrow> Inl IndexError | r # rs \<Rightarrow> Inr r)"

text \<open>The budget alert: nothing unless the budget is positive.\<close>

definition budget_alert :: "rat \<Rightarrow> pyfloat \<Rightarrow> notice option" where
  "budget_alert user_budget t =
     (if user_budget > 0 then
        (if fgt t (Fin user_budget) then Some (BudgetExceeded user_budget t)
         else Some (WithinBudget user_budget))
      else None)"

text \<open>
  The first part of the block under \<^verbatim>\<open>if st.session_state.expenses:\<close>, up to the budget
  alert: the notice it shows, if any. Nothing that follows in the block can take the
  notice back.
\<close>

definition alert_shown :: "store \<Rightarrow> rat \<Rightarrow> notice option" where
  "alert_shown expenses user_budget =
     (if expenses = [] then None
      else budget_alert user_budget (total_spent expenses))"

text \<open>
  What the whole block computes and shows. The result is \<open>Inr None\<close> when the block is
  skipped. The pie chart and the bar chart are drawn from the summary by the charting
  libraries, which are outside the repository and may raise (the pie chart rejects
  wedge sizes it cannot draw), so they are a parameter: \<open>charts_raise rows\<close> tells
  whether one of the chart calls raises for the summary \<open>rows\<close>. An exception there
  ends the run after the total, the budget alert and the summary, and before the
  average and the top category are computed.
\<close>

type_synonym charts = "(pystr \<times> pyfloat) list \<Rightarrow> bool"

record report =
  rep_total :: pyfloat
  rep_alert :: "notice option"
  rep_summary :: "(pystr \<times> pyfloat) list"
  rep_avg_expense :: pyfloat
  rep_top_category :: pystr
  rep_top_amount :: pyfloat

definition render :: "charts \<Rightarrow> store \<Rightarrow> rat \<Rightarrow> error + report option" where
  "render charts_raise expenses user_budget =
     (if expenses = [] then Inr None
      else if charts_raise (summary expenses) then Inl ChartError
      else (case fdiv_nat (total_spent expenses) (length expenses) of
              Inl e \<Rightarrow> Inl e
            | Inr avg \<Rightarrow>
                (case iloc0 (summary expenses) of
                   Inl e \<Rightarrow> Inl e
                 | Inr row \<Rightarrow>
                     Inr (Some \<lparr>rep_total = total_spent expenses,
                                rep_alert = budget_alert user_budget (total_spent expenses),
                                rep_summary = summary expenses,
                                rep_avg_expense = avg,
                                rep_top_category = fst row,
                                rep_top_amount = snd row\<rparr>))))"

text \<open>Two stand-ins for the chart calls: one that never raises and one that always does.\<close>

definition charts_ok :: charts where
  "charts_ok rows = False"

definition charts_fail :: charts where
  "charts_fail rows = True"

text \<open>
  The over-budget flag of the specification, read off a budget notice: absent when no
  notice is shown.
\<close>

definition alert_flag :: "notice option \<Rightarrow> bool option" where
  "alert_flag a =
     (case a of
        Some (BudgetExceeded b t) \<Rightarrow> Some True
      | Some (WithinBudget b) \<Rightarrow> Some False
      | _ \<Rightarrow> None)"

definition over_budget :: "report \<Rightarrow> bool option" where
  "over_budget r = alert_flag (rep_alert r)"

section \<open>Predicates of the claims\<close>

text \<open>
  The invariant the specification states for the store: every amount is at least 0
  (the comparison \<^verbatim>\<open>amount >= 0\<close>, false for a NaN) and no category is empty.
\<close>

definition nonneg :: "pyfloat \<Rightarrow> bool" where
  "nonneg x = (case x of Fin q \<Rightarrow> 0 \<le> q | PosInf \<Rightarrow> True | NegInf \<Rightarrow> False | NaN \<Rightarrow> False)"

definition store_inv :: "store \<Rightarrow> bool" where
  "store_inv expenses = list_all (\<lambda>r. nonneg (Amount r) \<and> Category r \<noteq> []) expenses"

text \<open>
  The contract of the classifier: the labels of a result are among the candidate
  labels it was given.
\<close>

definition classifier_labels_ok :: "classifier \<Rightarrow> bool" where
  "classifier_labels_ok classifier =
     (\<forall>text ls. classifier text CATEGORY_LABELS = Inr (Truthy (Some ls))
        \<longrightarrow> set ls \<subseteq> set CATEGORY_LABELS)"

text \<open>
  A manual entry whose trimmed categories are all non-empty and whose amounts, when
  they all parse, are all at least 0. The other actions carry no such condition.
\<close>

fun manual_input_ok :: "action \<Rightarrow> bool" where
  "manual_input_ok (AddManual categories_input amounts_input) =
     (list_all (\<lambda>cat. cat \<noteq> []) (map strip (split_comma categories_input))
      \<and> (case float_all (split_comma amounts_input) of
            Inl e \<Rightarrow> True
          | Inr xs \<Rightarrow> list_all nonneg xs))"
| "manual_input_ok (AddAI user_input) = True"
| "manual_input_ok ClearAll = True"





text \<open>The store of the specification's aggregation example.\<close>

definition example_store :: store where
  "example_store =
     [\<lparr>Description = ascii ''Manual: Food'', Amount = Fin 100, Category = ascii ''Food''\<rparr>,
      \<lparr>Description = ascii ''Manual: Food'', Amount = Fin 50, Category = ascii ''Food''\<rparr>,
      \<lparr>Description = ascii ''Manual: Transport'', Amount = Fin 25,
        Category = ascii ''Transport''\<rparr>]"

text \<open>
  A store whose total is rounded: 10000000000000000 and 1 add up to 10000000000000000
  in doubles.
\<close>

definition rounded_store :: store where
  "rounded_store =
     [\<lparr>Description = ascii ''Manual: A'', Amount = Fin 10000000000000000,
        Category = ascii ''A''\<rparr>,
      \<lparr>Description = ascii ''Manual: B'', Amount = Fin 1, Category = ascii ''B''\<rparr>]"

section \<open>Facts about rounding\<close>

text \<open>
  \<open>ilog2 a\<close> is the exponent of the greatest power of two that is at most \<open>a\<close>. A
  number that is a multiple of \<open>1 / 2 ^ k\<close> with fewer than 53 binary digits is a
  double, and rounding leaves it as it is (\<open>round_double_exact\<close>); the rounding of a
  number that is not negative is not negative; a number from \<open>2 ^ 1024\<close> on is rounded
  to an infinity.
\<close>

lemma bit_length_upper: "n < 2 ^ bit_length n"
proof (induction n rule: bit_length.induct)
  case (1 n)
  show ?case
  proof (cases "n = 0")
    case True
    then show ?thesis by (simp add: bit_length.simps)
  next
    case False
    with 1 have "n div 2 < 2 ^ bit_length (n div 2)" by simp
    then have "n < 2 * 2 ^ bit_length (n div 2)" by linarith
    with False show ?thesis by (simp add: bit_length.simps[of n])
  qed
qed

lemma bit_length_lower: "0 < n \<Longrightarrow> (2::nat) ^ (bit_length n - 1) \<le> n"
proof (induction n rule: bit_length.induct)
  case (1 n)
  show ?case
  proof (cases "n div 2 = 0")
    case True
    with 1(2) have "n = 1" by presburger
    moreover have "bit_length (Suc 0) = Suc 0"
      by (simp add: bit_length.simps[of "Suc 0"] bit_length.simps[of 0])
    ultimately show ?thesis by simp
  next
    case False
    with 1 have ih: "(2::nat) ^ (bit_length (n div 2) - 1) \<le> n div 2" by simp
    from False have pos: "0 < bit_length (n div 2)" by (simp add: bit_length.simps[of "n div 2"])
    from 1(2) have "bit_length n = Suc (bit_length (n div 2))" by (simp add: bit_length.simps[of n])
    then have "(2::nat) ^ (bit_length n - 1) = 2 * 2 ^ (bit_length (n div 2) - 1)"
      using pos by (cases "bit_length (n div 2)") auto
    with ih show ?thesis by linarith
  qed
qed

lemma round_half_even_int: "round_half_even (of_int n) = n"
  by (simp add: round_half_even_def)

lemma round_half_even_nonneg: "0 \<le> x \<Longrightarrow> 0 \<le> round_half_even x"
  by (auto simp: round_half_even_def Let_def)


lemma ilog2_lower: "0 < a \<Longrightarrow> 2 powi ilog2 a \<le> a"
proof (cases "1 \<le> a")
  case True
  then have f: "0 < nat \<lfloor>a\<rfloor>" by simp
  let ?b = "bit_length (nat \<lfloor>a\<rfloor>)"
  from f have pos: "0 < ?b" by (simp add: bit_length.simps[of "nat \<lfloor>a\<rfloor>"])
  from bit_length_lower[OF f] have "(2::nat) ^ (?b - 1) \<le> nat \<lfloor>a\<rfloor>" .
  then have "(of_nat ((2::nat) ^ (?b - 1)) :: rat) \<le> of_nat (nat \<lfloor>a\<rfloor>)"
    by (simp only: of_nat_le_iff)
  also have "\<dots> = of_int \<lfloor>a\<rfloor>" using True by simp
  also have "\<dots> \<le> a" by simp
  finally have "(2::rat) ^ (?b - 1) \<le> a" by simp
  moreover from pos True have "ilog2 a = int (?b - 1)" by (simp add: ilog2_def)
  then have "(2::rat) powi ilog2 a = 2 ^ (?b - 1)" by (simp only: power_int_of_nat)
  ultimately show ?thesis by simp
next
  case False
  assume a: "0 < a"
  let ?n = "nat (\<lceil>1 / a\<rceil> - 1)"
  let ?j = "bit_length ?n"
  from a have c: "1 \<le> \<lceil>1 / a\<rceil>" by (simp add: Ints_1 one_le_ceiling)
  have "?n < 2 ^ ?j" by (rule bit_length_upper)
  then have "int ?n < 2 ^ ?j" by (metis of_nat_less_iff of_nat_numeral of_nat_power)
  with c have "\<lceil>1 / a\<rceil> \<le> 2 ^ ?j" by simp
  then have "1 / a \<le> of_int (2 ^ ?j)" by (simp only: ceiling_le_iff)
  then have "1 / a \<le> 2 ^ ?j" by simp
  with a have "1 \<le> 2 ^ ?j * a" by (simp add: field_simps)
  then have "1 / 2 ^ ?j \<le> a" by (simp add: field_simps)
  moreover from False have "ilog2 a = - int ?j" by (simp add: ilog2_def)
  then have "(2::rat) powi ilog2 a = 1 / 2 ^ ?j" by (simp only: power_int_minus_divide power_int_of_nat)
  ultimately show ?thesis by simp
qed

lemma ilog2_upper: "0 < a \<Longrightarrow> a < 2 powi (ilog2 a + 1)"
proof (cases "1 \<le> a")
  case True
  then have f: "0 < nat \<lfloor>a\<rfloor>" by simp
  let ?b = "bit_length (nat \<lfloor>a\<rfloor>)"
  from f have pos: "0 < ?b" by (simp add: bit_length.simps[of "nat \<lfloor>a\<rfloor>"])
  have "nat \<lfloor>a\<rfloor> < 2 ^ ?b" by (rule bit_length_upper)
  then have "Suc (nat \<lfloor>a\<rfloor>) \<le> 2 ^ ?b" by (rule Suc_leI)
  then have "(of_nat (Suc (nat \<lfloor>a\<rfloor>)) :: rat) \<le> of_nat (2 ^ ?b)"
    by (simp only: of_nat_le_iff)
  then have "of_int \<lfloor>a\<rfloor> + 1 \<le> (2::rat) ^ ?b" using True by simp
  moreover have "a < of_int \<lfloor>a\<rfloor> + 1" by linarith
  ultimately have "a < 2 ^ ?b" by simp
  moreover from pos True have "ilog2 a + 1 = int ?b" by (simp add: ilog2_def)
  then have "(2::rat) powi (ilog2 a + 1) = 2 ^ ?b" by (simp only: power_int_of_nat)
  ultimately show ?thesis by simp
next
  case False
  assume a: "0 < a"
  let ?n = "nat (\<lceil>1 / a\<rceil> - 1)"
  let ?j = "bit_length ?n"
  from a False have "1 < 1 / a" by (simp add: field_simps)
  then have c: "2 \<le> \<lceil>1 / a\<rceil>" by linarith
  then have n: "0 < ?n" by simp
  then have pos: "0 < ?j" by (simp add: bit_length.simps[of ?n])
  from bit_length_lower[OF n] have "(2::nat) ^ (?j - 1) \<le> ?n" .
  then have "(of_nat ((2::nat) ^ (?j - 1)) :: rat) \<le> of_nat ?n"
    by (simp only: of_nat_le_iff)
  also have "\<dots> = of_int (\<lceil>1 / a\<rceil> - 1)"
  proof -
    from c have "0 \<le> \<lceil>1 / a\<rceil> - 1" by linarith
    then show ?thesis by (rule of_nat_nat)
  qed
  also have "\<dots> < 1 / a" by linarith
  finally have "(2::rat) ^ (?j - 1) < 1 / a" by simp
  with a have "a * 2 ^ (?j - 1) < 1" by (simp add: field_simps)
  then have "a < 1 / 2 ^ (?j - 1)" by (simp add: field_simps)
  moreover from False pos have "ilog2 a + 1 = - int (?j - 1)" by (simp add: ilog2_def)
  then have "(2::rat) powi (ilog2 a + 1) = 1 / 2 ^ (?j - 1)"
    by (simp only: power_int_minus_divide power_int_of_nat)
  ultimately show ?thesis by simp
qed

lemma round_double_exact:
  assumes k: "k \<le> 1074" and whole: "of_int \<lfloor>q * 2 ^ k\<rfloor> = q * 2 ^ k"
    and bound: "\<bar>q\<bar> * 2 ^ k < 2 ^ 53"
  shows "round_double q = Fin q"
proof (cases "q = 0")
  case True
  then show ?thesis by (simp add: round_double_def)
next
  case False
  define a where "a = \<bar>q\<bar>"
  define e where "e = max (ilog2 a - 52) (- 1074)"
  define d where "d = - int k - e"
  define X where "X = \<bar>\<lfloor>q * 2 ^ k\<rfloor>\<bar>"
  from False have apos: "0 < a" by (simp add: a_def)
  have aX: "a * 2 ^ k = of_int X"
  proof -
    have "a * 2 ^ k = \<bar>q * 2 ^ k\<bar>" by (simp add: a_def abs_mult)
    also have "\<dots> = \<bar>of_int \<lfloor>q * 2 ^ k\<rfloor>\<bar>" by (simp only: whole)
    finally show ?thesis by (simp add: X_def)
  qed
  have "a * 2 ^ k < 2 ^ 53" using bound by (simp add: a_def)
  then have "a < 2 ^ 53 / 2 ^ k" by (simp add: field_simps)
  also have "\<dots> = 2 powi (53 - int k)"
    by (simp add: power_int_diff)
  finally have alt: "a < 2 powi (53 - int k)" .
  have il: "ilog2 a < 53 - int k"
  proof (rule ccontr)
    assume "\<not> ilog2 a < 53 - int k"
    then have "53 - int k \<le> ilog2 a" by simp
    then have "(2::rat) powi (53 - int k) \<le> 2 powi ilog2 a"
      by (intro power_int_increasing) simp_all
    with ilog2_lower[OF apos] alt show False by simp
  qed
  from il k have ek: "e \<le> - int k" by (simp add: e_def)
  then have d0: "0 \<le> d" by (simp add: d_def)
  have "e = - int k - d" by (simp add: d_def)
  then have "(2::rat) powi e = 2 powi (- int k) / 2 powi d"
    by (simp add: power_int_diff)
  also have "\<dots> = 1 / 2 ^ k / 2 ^ nat d"
    using d0 by (simp add: power_int_minus_divide power_int_nonneg_exp)
  finally have pe: "(2::rat) powi e = 1 / 2 ^ k / 2 ^ nat d" .
  then have "a / 2 powi e = a * 2 ^ k * 2 ^ nat d" by simp
  also have "\<dots> = of_int (X * 2 ^ nat d)" by (simp add: aX)
  finally have q: "a / 2 powi e = of_int (X * 2 ^ nat d)" .
  then have m: "round_half_even (a / 2 powi e) = X * 2 ^ nat d"
    by (simp only: round_half_even_int)
  have v: "of_int (X * 2 ^ nat d) * 2 powi e = a"
    using q by (metis apos less_numeral_extra(3) nonzero_eq_divide_eq power_int_eq_0_iff zero_neq_numeral divide_eq_0_iff)
  have "a \<le> a * 2 ^ k" using apos by (simp add: mult_le_cancel_left1)
  with \<open>a * 2 ^ k < 2 ^ 53\<close> have "a < 2 ^ 53" by simp
  also have "(2::rat) ^ 53 \<le> 2 ^ 1024" by simp
  finally have small: "\<not> 2 ^ 1024 \<le> a" by simp
  have "round_double q = Fin (if 0 < q then a else - a)"
    using False small m v
    by (simp add: round_double_def Let_def a_def[symmetric] e_def[symmetric])
  then show ?thesis by (simp add: a_def)
qed

lemma round_double_nonneg:
  assumes "0 \<le> q"
  shows "round_double q = PosInf \<or> (\<exists>v\<ge>0. round_double q = Fin v)"
proof (cases "q = 0")
  case True
  then show ?thesis by (simp add: round_double_def)
next
  case False
  with assms have pos: "0 < q" by simp
  define e where "e = max (ilog2 q - 52) (- 1074)"
  have "0 \<le> q / 2 powi e" using pos by simp
  then have "0 \<le> round_half_even (q / 2 powi e)" by (rule round_half_even_nonneg)
  then have "0 \<le> (of_int (round_half_even (q / 2 powi e)) :: rat) * 2 powi e" by simp
  with pos show ?thesis
    by (simp add: round_double_def Let_def e_def[symmetric])
qed


lemma bit_length_eq:
  assumes "2 ^ j \<le> n" and "n < 2 ^ Suc j"
  shows "bit_length n = Suc j"
proof -
  from assms(1) have pos: "0 < n" by (cases "n = 0") auto
  have "(2::nat) ^ (bit_length n - 1) \<le> n" using bit_length_lower[OF pos] .
  with assms(2) have "(2::nat) ^ (bit_length n - 1) < 2 ^ Suc j" by (rule le_less_trans[rotated])
  then have a: "bit_length n - 1 < Suc j"
    by (rule power_less_imp_less_exp[rotated]) simp
  have "n < 2 ^ bit_length n" by (rule bit_length_upper)
  with assms(1) have "(2::nat) ^ j < 2 ^ bit_length n" by (rule le_less_trans)
  then have "j < bit_length n"
    by (rule power_less_imp_less_exp[rotated]) simp
  with a show ?thesis by simp
qed

lemma round_double_numeral:
  "numeral w < (2::rat) ^ 53 \<Longrightarrow> round_double (numeral w) = Fin (numeral w)"
  using round_double_exact[of 0 "numeral w"] by simp

lemma round_double_half: "round_double (91 / 2) = Fin (91 / 2)"
  using round_double_exact[of 1 "91 / 2"] by simp

lemma ilog2_175_3: "ilog2 (175 / 3) = 5"
proof -
  have "bit_length 58 = Suc 5" by (rule bit_length_eq) simp_all
  moreover have "\<lfloor>(175::rat) / 3\<rfloor> = 58" by (rule floor_unique) simp_all
  ultimately show ?thesis by (simp add: ilog2_def)
qed

lemma round_double_175_3:
  "round_double (175 / 3) = Fin (8209686820727467 / 140737488355328)"
proof -
  have p: "(2::rat) powi (- 47) = 1 / 140737488355328" by (simp add: power_int_minus_divide)
  have f: "\<lfloor>(24629060462182400::rat) / 3\<rfloor> = 8209686820727466"
    by (rule floor_unique) simp_all
  have m: "round_half_even ((24629060462182400::rat) / 3) = 8209686820727467"
    unfolding round_half_even_def Let_def f by simp
  show ?thesis
    by (simp add: round_double_def Let_def ilog2_175_3 p m)
qed

lemma ilog2_big: "ilog2 10000000000000001 = 53"
proof -
  have "bit_length 10000000000000001 = Suc 53" by (rule bit_length_eq) simp_all
  then show ?thesis by (simp add: ilog2_def)
qed

lemma round_double_tie: "round_double (10000000000000000 + 1) = Fin 10000000000000000"
proof -
  have m: "round_half_even ((10000000000000001::rat) / 2) = 5000000000000000"
  proof -
    have f: "\<lfloor>(10000000000000001::rat) / 2\<rfloor> = 5000000000000000"
      by (rule floor_unique) simp_all
    show ?thesis unfolding round_half_even_def Let_def f by simp
  qed
  show ?thesis
    by (simp add: round_double_def Let_def ilog2_big m)
qed

lemma round_double_big: "round_double 10000000000000000 = Fin 10000000000000000"
proof -
  have "bit_length 10000000000000000 = Suc 53" by (rule bit_length_eq) simp_all
  then have i: "ilog2 10000000000000000 = 53" by (simp add: ilog2_def)
  have "round_half_even (of_int 5000000000000000) = 5000000000000000"
    by (rule round_half_even_int)
  then have m: "round_half_even 5000000000000000 = 5000000000000000" by simp
  show ?thesis
    by (simp add: round_double_def Let_def i m)
qed

lemma round_half_even_floor: "\<lfloor>x\<rfloor> \<le> round_half_even x"
  by (simp add: round_half_even_def Let_def)

lemma round_double_overflow:
  assumes "2 ^ 1024 \<le> q"
  shows "round_double q = PosInf"
proof -
  have big: "(0::rat) < 2 ^ 1024" by simp
  from this assms have pos: "0 < q" by (rule less_le_trans)
  define i where "i = ilog2 q"
  define e where "e = max (i - 52) (- 1074)"
  have "(2::rat) powi 1024 = 2 ^ 1024" by simp
  also note assms
  also have "q < 2 powi (i + 1)" unfolding i_def by (rule ilog2_upper[OF pos])
  finally have lt: "(2::rat) powi 1024 < 2 powi (i + 1)" .
  have i: "1024 \<le> i"
  proof (rule ccontr)
    assume "\<not> 1024 \<le> i"
    then have "i + 1 \<le> 1024" by simp
    then have "(2::rat) powi (i + 1) \<le> 2 powi 1024"
      by (intro power_int_increasing) simp_all
    with lt show False by simp
  qed
  then have e: "e = i - 52" by (simp add: e_def)
  have "(2::rat) powi i \<le> q" unfolding i_def by (rule ilog2_lower[OF pos])
  then have "(2::rat) powi i / 2 powi e \<le> q / 2 powi e"
    by (intro divide_right_mono) simp_all
  moreover have "(2::rat) powi i / 2 powi e = of_int (2 ^ 52)"
    unfolding e by (simp add: power_int_diff[symmetric])
  ultimately have "of_int (2 ^ 52) \<le> q / 2 powi e" by simp
  then have "2 ^ 52 \<le> \<lfloor>q / 2 powi e\<rfloor>" by (simp only: le_floor_iff)
  also have "\<dots> \<le> round_half_even (q / 2 powi e)" by (rule round_half_even_floor)
  finally have m: "(of_int (2 ^ 52) :: rat) \<le> of_int (round_half_even (q / 2 powi e))"
    by (simp only: of_int_le_iff)
  have "(2::rat) ^ 1024 = 2 powi 1024" by simp
  also have "\<dots> \<le> 2 powi i" using i by (intro power_int_increasing) simp_all
  also have "\<dots> = of_int (2 ^ 52) * 2 powi e"
    unfolding e by (simp add: power_int_diff)
  also have "\<dots> \<le> of_int (round_half_even (q / 2 powi e)) * 2 powi e"
    using m by (intro mult_right_mono) simp_all
  finally have v: "2 ^ 1024 \<le> rat_of_int (round_half_even (q / 2 powi e)) * 2 powi e" .
  from pos have "\<bar>q\<bar> = q" by simp
  with pos v show ?thesis
    by (simp add: round_double_def Let_def i_def[symmetric] e_def[symmetric])
qed

lemma round_double_tenth:
  "round_double (1 / 10) = Fin (3602879701896397 / 36028797018963968)"
proof -
  have "bit_length 9 = Suc 3" by (rule bit_length_eq) simp_all
  then have i: "ilog2 (1 / 10) = - 4" by (simp add: ilog2_def)
  have p: "(2::rat) powi (- 56) = 1 / 72057594037927936" by (simp add: power_int_minus_divide)
  have f: "\<lfloor>(36028797018963968::rat) / 5\<rfloor> = 7205759403792793"
    by (rule floor_unique) simp_all
  have m: "round_half_even ((36028797018963968::rat) / 5) = 7205759403792794"
    unfolding round_half_even_def Let_def f by simp
  show ?thesis
    by (simp add: round_double_def Let_def i p m)
qed

lemma round_double_0: "round_double 0 = Fin 0"
  by (simp add: round_double_def)

lemma round_double_of_nat: "n < 2 ^ 53 \<Longrightarrow> round_double (of_nat n) = Fin (of_nat n)"
  using round_double_exact[of 0 "of_nat n"] by simp

section \<open>Facts about the character classes and the pattern\<close>

lemma decimal_value_low:
  "c < 1632 \<Longrightarrow> decimal_value c = (if 48 \<le> c \<and> c < 58 then Some (c - 48) else None)"
  by (simp add: decimal_value_def decimal_zeros_def)

lemma is_decimal_low: "c < 1632 \<Longrightarrow> is_decimal c = (48 \<le> c \<and> c < 58)"
  by (simp add: is_decimal_def decimal_value_low)

lemma rupee_not_decimal: "\<not> is_decimal 8377"
  by (simp add: is_decimal_def decimal_value_def decimal_zeros_def)

lemma decimal_value_less: "decimal_value c = Some d \<Longrightarrow> d < 10"
proof -
  assume a: "decimal_value c = Some d"
  then obtain z where z: "find (\<lambda>z. z \<le> c \<and> c < z + 10) decimal_zeros = Some z" and d: "d = c - z"
    by (auto simp: decimal_value_def split: option.splits)
  from z have "z \<le> c \<and> c < z + 10"
    by (auto simp: find_Some_iff)
  with d show ?thesis by arith
qed

lemma spaces_not_decimal: "list_all (\<lambda>c. \<not> is_decimal c) unicode_spaces"
  by (simp add: unicode_spaces_def is_decimal_def decimal_value_def decimal_zeros_def)

lemma space_not_decimal: "is_space c \<Longrightarrow> \<not> is_decimal c"
  using spaces_not_decimal by (simp add: is_space_def list_all_iff)

lemma decimal_no_prefix_char: "is_decimal c \<Longrightarrow> c \<noteq> 8377 \<and> c \<noteq> 73 \<and> c \<noteq> 78 \<and> c \<noteq> 82"
  using rupee_not_decimal by (auto simp: is_decimal_low)

lemma number_group_None: "number_group s = None \<longleftrightarrow> (s = [] \<or> \<not> is_decimal (hd s))"
  by (cases s) (auto simp: number_group_def Let_def split: list.splits)

lemma candidates_last: "\<exists>cs. concat (map opt_space (opt_currency s)) = cs @ [s]"
  by (auto simp: opt_currency_def opt_space_def split: list.splits)

lemma opt_space_suffix:
  "t \<in> set (opt_space s) \<Longrightarrow> \<exists>pre. s = pre @ t \<and> (\<forall>c\<in>set pre. \<not> is_decimal c)"
  by (auto simp: opt_space_def space_not_decimal split: list.splits if_splits)

lemma INR_eval: "ascii ''INR'' = [73, 78, 82]"
  by (simp add: ascii_def)

lemma opt_currency_suffix:
  "t \<in> set (opt_currency s) \<Longrightarrow> \<exists>pre. s = pre @ t \<and> (\<forall>c\<in>set pre. \<not> is_decimal c)"
proof -
  assume "t \<in> set (opt_currency s)"
  then consider "t = s" | r where "s = 8377 # r" "t = r" | "take 3 s = [73, 78, 82]" "t = drop 3 s"
    by (auto simp: opt_currency_def INR_eval split: list.splits if_splits)
  then show ?thesis
  proof cases
    case 1 then show ?thesis by auto
  next
    case 2 then show ?thesis using rupee_not_decimal by auto
  next
    case 3
    have "s = take 3 s @ drop 3 s" by simp
    with 3 have "s = [73, 78, 82] @ t" by simp
    moreover have "\<forall>c\<in>set [73, 78, 82::nat]. \<not> is_decimal c" by (simp add: is_decimal_low)
    ultimately show ?thesis by blast
  qed
qed

lemma candidate_suffix:
  assumes "t \<in> set (concat (map opt_space (opt_currency s)))"
  shows "\<exists>pre. s = pre @ t \<and> (\<forall>c\<in>set pre. \<not> is_decimal c)"
proof -
  from assms obtain u where u: "u \<in> set (opt_currency s)" and t: "t \<in> set (opt_space u)" by auto
  from opt_currency_suffix[OF u] obtain p1 where p1: "s = p1 @ u" "\<forall>c\<in>set p1. \<not> is_decimal c" by blast
  from opt_space_suffix[OF t] obtain p2 where p2: "u = p2 @ t" "\<forall>c\<in>set p2. \<not> is_decimal c" by blast
  from p1 p2 have "s = (p1 @ p2) @ t \<and> (\<forall>c\<in>set (p1 @ p2). \<not> is_decimal c)" by auto
  then show ?thesis by blast
qed

lemma first_some_Some: "first_some f xs = Some y \<Longrightarrow> \<exists>x\<in>set xs. f x = Some y"
  by (induction xs) (auto split: option.splits)

lemma first_some_None: "first_some f xs = None \<longleftrightarrow> (\<forall>x\<in>set xs. f x = None)"
  by (induction xs) (auto split: option.splits)

lemma dropWhile_nondecimal:
  "\<forall>c\<in>set pre. \<not> is_decimal c \<Longrightarrow> t \<noteq> [] \<Longrightarrow> is_decimal (hd t) \<Longrightarrow>
   dropWhile (\<lambda>c. \<not> is_decimal c) (pre @ t) = t"
  by (cases t) (auto simp: dropWhile_append)

lemma match_here_Some:
  assumes "match_here s = Some g"
  shows "number_group (dropWhile (\<lambda>c. \<not> is_decimal c) s) = Some g"
proof -
  from assms obtain t where t: "t \<in> set (concat (map opt_space (opt_currency s)))" and g: "number_group t = Some g"
    unfolding match_here_def by (blast dest: first_some_Some)
  from g have nd: "t \<noteq> [] \<and> is_decimal (hd t)" using number_group_None[of t] by auto
  from candidate_suffix[OF t] obtain pre where "s = pre @ t" "\<forall>c\<in>set pre. \<not> is_decimal c" by blast
  then have "dropWhile (\<lambda>c. \<not> is_decimal c) s = t"
    using nd dropWhile_nondecimal[of pre t] by simp
  with g show ?thesis by simp
qed

lemma match_here_None:
  assumes "match_here s = None"
  shows "s = [] \<or> \<not> is_decimal (hd s)"
proof -
  obtain cs where "concat (map opt_space (opt_currency s)) = cs @ [s]" using candidates_last by blast
  with assms have "number_group s = None" by (simp add: match_here_def first_some_None)
  then show ?thesis by (simp add: number_group_None)
qed

lemma re_search_first_digit:
  "re_search s = number_group (dropWhile (\<lambda>c. \<not> is_decimal c) s)"
proof (induction s)
  case Nil
  show ?case by (simp add: match_here_def opt_currency_def opt_space_def number_group_def INR_eval)
next
  case (Cons c cs)
  show ?case
  proof (cases "match_here (c # cs)")
    case (Some g)
    then show ?thesis using match_here_Some[OF Some] by simp
  next
    case None
    then have "\<not> is_decimal c" using match_here_None[OF None] by simp
    with None Cons show ?thesis by simp
  qed
qed

lemmas search_eval = ascii_def match_here_def opt_currency_def opt_space_def number_group_def
  is_decimal_low is_space_def unicode_spaces_def rupee_not_decimal

lemmas float_eval = ascii_def py_float_def float_strip_def float_space_def parse_float_def
  parse_unsigned_def parse_number_def parse_exponent_def ascii_digit_def digits_value_def pow10_def
  parse_inf_nan_def ascii_lower_def fneg_def round_double_0 round_double_numeral

text \<open>
  Two literals that are not doubles: \<^verbatim>\<open>0.1\<close> is read as the nearest double, and
  \<^verbatim>\<open>1e400\<close> as an infinity.
\<close>

lemma float_tenth: "py_float (ascii ''0.1'') = Inr (Fin (3602879701896397 / 36028797018963968))"
  by (simp add: float_eval round_double_tenth)

lemma float_overflow: "py_float (ascii ''1e400'') = Inr PosInf"
proof -
  have "round_double (10 ^ 400) = PosInf" by (rule round_double_overflow) simp
  then show ?thesis by (simp add: float_eval)
qed

lemma extract_amount_first_digit:
  "extract_amount text =
     (case number_group (dropWhile (\<lambda>c. \<not> is_decimal c) text) of
        Some g \<Rightarrow> py_float g
      | None \<Rightarrow> Inr (Fin 0))"
  by (simp add: extract_amount_def re_search_first_digit)

lemma no_decimal_no_match: "(\<forall>c\<in>set text. \<not> is_decimal c) \<Longrightarrow> re_search text = None"
proof -
  assume "\<forall>c\<in>set text. \<not> is_decimal c"
  then have "dropWhile (\<lambda>c. \<not> is_decimal c) text = []" by simp
  then show ?thesis by (simp add: re_search_first_digit number_group_None)
qed

lemma extract_medicines: "extract_amount (ascii ''Paid '' @ [8377] @ ascii ''600 for medicines'') = Inr (Fin 600)"
proof -
  have "re_search (ascii ''Paid '' @ [8377] @ ascii ''600 for medicines'') = Some (ascii ''600'')"
    by (simp add: search_eval)
  moreover have "py_float (ascii ''600'') = Inr (Fin 600)" by (simp add: float_eval)
  ultimately show ?thesis by (simp add: extract_amount_def)
qed

lemma extract_no_numbers: "extract_amount (ascii ''no numbers here'') = Inr (Fin 0)"
proof -
  have "re_search (ascii ''no numbers here'') = None"
    by (simp add: search_eval)
  then show ?thesis by (simp add: extract_amount_def)
qed

lemma extract_taxi: "extract_amount (ascii ''INR 45.50 taxi'') = Inr (Fin (91 / 2))"
proof -
  have "re_search (ascii ''INR 45.50 taxi'') = Some (ascii ''45.50'')"
    by (simp add: search_eval)
  moreover have "py_float (ascii ''45.50'') = Inr (Fin (91 / 2))"
    by (simp add: float_eval round_double_half)
  ultimately show ?thesis by (simp add: extract_amount_def)
qed

lemma extract_two_numbers: "extract_amount (ascii ''20 apples and 3 pears'') = Inr (Fin 20)"
proof -
  have "re_search (ascii ''20 apples and 3 pears'') = Some (ascii ''20'')"
    by (simp add: search_eval)
  moreover have "py_float (ascii ''20'') = Inr (Fin 20)" by (simp add: float_eval)
  ultimately show ?thesis by (simp add: extract_amount_def)
qed

lemma extract_comma: "extract_amount (ascii ''INR 45,50'') = Inl ValueError"
proof -
  have "re_search (ascii ''INR 45,50'') = Some (ascii ''45,50'')"
    by (simp add: search_eval)
  moreover have "py_float (ascii ''45,50'') = Inl ValueError" by (simp add: float_eval)
  ultimately show ?thesis by (simp add: extract_amount_def)
qed


lemma pow10_pos: "0 < pow10 k"
  by (simp add: pow10_def)

lemma parse_number_result:
  "parse_number s = Inl ValueError \<or> (\<exists>x. parse_number s = Inr x \<and> nonneg x)"
proof -
  have "nonneg (round_double (of_nat n * pow10 k))" for n k
  proof -
    have "0 \<le> of_nat n * pow10 k" using pow10_pos[of k] by simp
    from round_double_nonneg[OF this] show ?thesis by (auto simp: nonneg_def)
  qed
  then show ?thesis
    by (auto simp: parse_number_def Let_def split: prod.splits list.splits)
qed

lemma parse_inf_nan_error: "parse_inf_nan s = Inl e \<Longrightarrow> e = ValueError"
  by (auto simp: parse_inf_nan_def Let_def split: if_splits)

lemma parse_unsigned_error: "parse_unsigned s = Inl e \<Longrightarrow> e = ValueError"
  using parse_number_result[of s] parse_inf_nan_error[of s e]
  by (auto simp: parse_unsigned_def split: list.splits if_splits)

lemma parse_float_error: "parse_float s = Inl e \<Longrightarrow> e = ValueError"
proof (cases s)
  case Nil
  then show "parse_float s = Inl e \<Longrightarrow> e = ValueError" by (simp add: parse_float_def)
next
  case (Cons c r)
  assume a: "parse_float s = Inl e"
  show "e = ValueError"
  proof (cases "c = 45")
    case True
    with a Cons have "map_sum id fneg (parse_unsigned r) = Inl e" by (simp add: parse_float_def)
    then have "parse_unsigned r = Inl e" by (cases "parse_unsigned r") auto
    then show ?thesis by (rule parse_unsigned_error)
  next
    case False
    with a Cons have "parse_unsigned r = Inl e \<or> parse_unsigned s = Inl e"
      by (auto simp: parse_float_def split: if_splits)
    then show ?thesis using parse_unsigned_error by blast
  qed
qed

lemma py_float_error: "py_float s = Inl e \<Longrightarrow> e = ValueError"
  by (auto simp: py_float_def Let_def split: option.splits if_splits dest: parse_float_error)

lemma parse_float_digit: "ascii_digit c \<Longrightarrow> parse_float (c # r) = parse_number (c # r)"
  by (auto simp: parse_float_def parse_unsigned_def ascii_digit_def)

lemma decimal_ascii_digit: "is_decimal c \<Longrightarrow> c < 127 \<Longrightarrow> ascii_digit c"
  by (simp add: is_decimal_low ascii_digit_def)

lemma to_ascii_head:
  assumes "is_decimal c" and "to_ascii (c # cs) = Some a"
  shows "\<exists>d r. a = d # r \<and> ascii_digit d"
proof (cases "c < 127")
  case True
  with assms show ?thesis by (auto simp: decimal_ascii_digit)
next
  case False
  from assms(1) have ns: "\<not> is_space c" using space_not_decimal by blast
  from assms(1) obtain d where d: "decimal_value c = Some d" by (auto simp: is_decimal_def)
  then have "d < 10" by (rule decimal_value_less)
  then have "ascii_digit (48 + d)" by (simp add: ascii_digit_def)
  with False ns d assms(2) show ?thesis by auto
qed

lemma strip_keeps_head:
  assumes "\<not> P x"
  shows "\<exists>r'. rev (dropWhile P (rev (dropWhile P (x # r)))) = x # r'"
proof -
  from assms have "\<exists>ys. dropWhile P (rev r @ [x]) = ys @ [x]"
    by (cases "\<forall>y\<in>set (rev r). P y") (auto simp: dropWhile_append)
  then obtain ys where "dropWhile P (rev r @ [x]) = ys @ [x]" by blast
  with assms show ?thesis by simp
qed

lemma float_strip_head: "ascii_digit d \<Longrightarrow> \<exists>r'. float_strip (d # r) = d # r'"
  unfolding float_strip_def
  by (rule strip_keeps_head) (auto simp: float_space_def ascii_digit_def)

lemma py_float_digit_head:
  assumes "is_decimal c"
  shows "py_float (c # cs) = Inl ValueError \<or> (\<exists>x. py_float (c # cs) = Inr x \<and> nonneg x)"
proof (cases "to_ascii (c # cs)")
  case None
  then show ?thesis by (simp add: py_float_def)
next
  case (Some a)
  from to_ascii_head[OF assms Some] obtain d r where a: "a = d # r" and d: "ascii_digit d" by blast
  from float_strip_head[OF d] obtain r' where st: "float_strip (d # r) = d # r'" by blast
  from d have "d \<noteq> 95" by (auto simp: ascii_digit_def)
  then have "filter (\<lambda>c. c \<noteq> 95) (d # r') = d # filter (\<lambda>c. c \<noteq> 95) r'" by simp
  then have "parse_float (filter (\<lambda>c. c \<noteq> 95) (d # r')) = parse_number (d # filter (\<lambda>c. c \<noteq> 95) r')"
    using parse_float_digit[OF d] by simp
  with Some a st show ?thesis
    using parse_number_result[of "d # filter (\<lambda>c. c \<noteq> 95) r'"]
    by (auto simp: py_float_def Let_def)
qed

lemma number_group_head: "number_group s = Some g \<Longrightarrow> \<exists>c cs. g = c # cs \<and> is_decimal c"
proof -
  assume a: "number_group s = Some g"
  then have ne: "s \<noteq> [] \<and> is_decimal (hd s)" using number_group_None[of s] by auto
  then obtain c r where s: "s = c # r" "is_decimal c" by (cases s) auto
  then have "takeWhile is_decimal s = c # takeWhile is_decimal r" by simp
  with a show ?thesis using s
    by (auto simp: number_group_def Let_def split: list.splits if_splits)
qed

lemma extract_amount_result:
  "extract_amount text = Inl ValueError \<or> (\<exists>x. extract_amount text = Inr x \<and> nonneg x)"
proof (cases "re_search text")
  case None
  then show ?thesis by (simp add: extract_amount_def nonneg_def)
next
  case (Some g)
  then have "number_group (dropWhile (\<lambda>c. \<not> is_decimal c) text) = Some g"
    by (simp add: re_search_first_digit)
  from number_group_head[OF this] obtain c cs where "g = c # cs" "is_decimal c" by blast
  with Some show ?thesis using py_float_digit_head[of c cs] by (simp add: extract_amount_def)
qed

text \<open>A captured group with a comma is never accepted by \<^verbatim>\<open>float\<close>.\<close>

lemma to_ascii_append:
  "to_ascii xs = Some a \<Longrightarrow> to_ascii ys = Some b \<Longrightarrow> to_ascii (xs @ ys) = Some (a @ b)"
  by (induction xs arbitrary: a) (auto split: option.splits if_splits)

lemma to_ascii_decimals:
  "\<forall>c\<in>set ds. is_decimal c \<Longrightarrow>
   \<exists>as. to_ascii ds = Some as \<and> length as = length ds \<and> (\<forall>a\<in>set as. ascii_digit a)"
proof (induction ds)
  case Nil
  then show ?case by simp
next
  case (Cons c ds)
  then obtain as where as: "to_ascii ds = Some as" "length as = length ds" "\<forall>a\<in>set as. ascii_digit a"
    by auto
  from Cons.prems have dc: "is_decimal c" by simp
  from dc obtain y where y: "decimal_value c = Some y" by (auto simp: is_decimal_def)
  have "\<exists>a. to_ascii (c # ds) = Some a"
    using as(1) y by simp
  then obtain a where a: "to_ascii (c # ds) = Some a" by blast
  from to_ascii_head[OF dc a] obtain d r where dr: "a = d # r" "ascii_digit d" by blast
  with a as(1) have "r = as" by (auto split: if_splits option.splits)
  with a dr as show ?case by auto
qed

lemma underscores_ok_none: "95 \<notin> set t \<Longrightarrow> prev \<noteq> 95 \<Longrightarrow> underscores_ok prev t"
  by (induction t arbitrary: prev) auto

lemma strip_id:
  assumes "xs \<noteq> []" and "\<not> P (hd xs)" and "\<not> P (last xs)"
  shows "rev (dropWhile P (rev (dropWhile P xs))) = xs"
proof -
  from assms(1,2) have "dropWhile P xs = xs" by (cases xs) auto
  moreover from assms(1,3) have "dropWhile P (rev xs) = rev xs"
    by (cases "rev xs") (auto simp: last_rev[symmetric] simp del: last_rev)
  ultimately show ?thesis by simp
qed

lemma parse_number_comma:
  assumes "a1 \<noteq> []" and "\<forall>a\<in>set a1. ascii_digit a"
  shows "parse_number (a1 @ 44 # a2) = Inl ValueError"
proof -
  have nd: "\<not> ascii_digit 44" by (simp add: ascii_digit_def)
  from assms(2) nd have t: "takeWhile ascii_digit (a1 @ 44 # a2) = a1"
    by (simp add: takeWhile_tail)
  from assms(2) nd have d: "dropWhile ascii_digit (a1 @ 44 # a2) = 44 # a2"
    by (simp add: dropWhile_append3)
  have "parse_exponent (44 # a2) = (0, 44 # a2)" by (simp add: parse_exponent_def)
  with t d assms(1) show ?thesis by (simp add: parse_number_def)
qed

lemma py_float_comma:
  assumes "d1 \<noteq> []" and "\<forall>c\<in>set d1. is_decimal c" and "\<forall>c\<in>set d2. is_decimal c"
  shows "py_float (d1 @ 44 # d2) = Inl ValueError"
proof -
  from to_ascii_decimals[OF assms(2)] obtain a1 where
    a1: "to_ascii d1 = Some a1" "length a1 = length d1" "\<forall>a\<in>set a1. ascii_digit a" by blast
  from to_ascii_decimals[OF assms(3)] obtain a2 where
    a2: "to_ascii d2 = Some a2" "\<forall>a\<in>set a2. ascii_digit a" by blast
  from a2(1) have "to_ascii (44 # d2) = Some (44 # a2)" by simp
  with a1(1) have ta: "to_ascii (d1 @ 44 # d2) = Some (a1 @ 44 # a2)"
    by (rule to_ascii_append)
  from a1(2) assms(1) have ne: "a1 \<noteq> []" by auto
  have digit_plain: "\<And>a. ascii_digit a \<Longrightarrow> \<not> float_space a \<and> a \<noteq> 95"
    by (auto simp: ascii_digit_def float_space_def)
  have c44: "\<not> float_space 44" by (simp add: float_space_def)
  from ne a1(3) have h: "\<not> float_space (hd (a1 @ 44 # a2))"
    using digit_plain by (cases a1) auto
  have l: "\<not> float_space (last (a1 @ 44 # a2))"
    using digit_plain a2(2) c44 by (cases "a2 = []") auto
  have st: "float_strip (a1 @ 44 # a2) = a1 @ 44 # a2"
    unfolding float_strip_def using h l by (intro strip_id) auto
  have no95: "95 \<notin> set (a1 @ 44 # a2)"
    using a1(3) a2(2) digit_plain by auto
  then have f: "filter (\<lambda>c. c \<noteq> 95) (a1 @ 44 # a2) = a1 @ 44 # a2"
    by (intro filter_True) auto
  from ne a1(3) obtain x r where xr: "a1 = x # r" "ascii_digit x" by (cases a1) auto
  then have "parse_float (a1 @ 44 # a2) = parse_number (a1 @ 44 # a2)"
    using parse_float_digit[of x "r @ 44 # a2"] by simp
  then have "parse_float (a1 @ 44 # a2) = Inl ValueError"
    using parse_number_comma[OF ne a1(3)] by simp
  with ta st f show ?thesis
    using underscores_ok_none[OF no95, of 0] by (simp add: py_float_def)
qed

lemma comma_not_decimal: "\<not> is_decimal 44" and point_not_decimal: "\<not> is_decimal 46"
  by (simp_all add: is_decimal_low)

lemma number_group_comma:
  assumes "number_group s = Some g" and "44 \<in> set g"
  shows "py_float g = Inl ValueError"
proof -
  let ?d1 = "takeWhile is_decimal s"
  let ?r1 = "dropWhile is_decimal s"
  have all1: "\<forall>c\<in>set ?d1. is_decimal c" by (auto dest: set_takeWhileD)
  from assms(1) have ne: "?d1 \<noteq> []" by (auto simp: number_group_def Let_def split: if_splits)
  have n44: "44 \<notin> set ?d1" using all1 comma_not_decimal by blast
  show ?thesis
  proof (cases ?r1)
    case Nil
    with assms(1) ne have "g = ?d1" by (simp add: number_group_def Let_def)
    with assms(2) n44 show ?thesis by simp
  next
    case (Cons c r)
    let ?d2 = "takeWhile is_decimal r"
    have all2: "\<forall>c\<in>set ?d2. is_decimal c" by (auto dest: set_takeWhileD)
    then have n44': "44 \<notin> set ?d2" using comma_not_decimal by blast
    from assms(1) ne Cons have g: "g = (if c = 46 \<or> c = 44 then ?d1 @ c # ?d2 else ?d1)"
      by (auto simp: number_group_def Let_def split: if_splits)
    with assms(2) n44 n44' have "c = 44" by (auto split: if_splits)
    with g have "g = ?d1 @ 44 # ?d2" by simp
    then show ?thesis using py_float_comma[OF ne all1 all2] by simp
  qed
qed

lemma extract_amount_comma_general:
  "re_search text = Some g \<Longrightarrow> 44 \<in> set g \<Longrightarrow> extract_amount text = Inl ValueError"
  using number_group_comma[of "dropWhile (\<lambda>c. \<not> is_decimal c) text" g]
  by (simp add: extract_amount_def re_search_first_digit)

section \<open>Facts about the manual handler\<close>

lemma split_comma_nonempty: "split_comma s \<noteq> []"
  by (induction s) (auto split: list.splits)

lemma float_all_Inr:
  "float_all xs = Inr vs \<Longrightarrow> map (\<lambda>x. py_float (strip x)) xs = map Inr vs"
  by (induction xs arbitrary: vs) (auto split: sum.splits)

lemma float_all_Inl:
  "(\<exists>e. float_all xs = Inl e) \<longleftrightarrow> (\<exists>x\<in>set xs. \<exists>e. py_float (strip x) = Inl e)"
  by (induction xs) (auto split: sum.splits)

lemma float_all_length: "float_all xs = Inr vs \<Longrightarrow> length vs = length xs"
  by (induction xs arbitrary: vs) (auto split: sum.splits)

lemma add_manual_rejected:
  assumes "(\<exists>x\<in>set (split_comma amounts_input). py_float (strip x) = Inl ValueError)
           \<or> length (split_comma categories_input) \<noteq> length (split_comma amounts_input)"
  shows "snd (add_manual categories_input amounts_input expenses) = expenses
         \<and> CountsMustMatch \<in> set (fst (add_manual categories_input amounts_input expenses))"
proof (cases "float_all (split_comma amounts_input)")
  case (Inl e)
  have "length (map strip (split_comma categories_input)) \<noteq> length ([]::pyfloat list)"
    using split_comma_nonempty[of categories_input] by simp
  with Inl show ?thesis by (simp add: add_manual_def)
next
  case (Inr vs)
  then have "\<not> (\<exists>x\<in>set (split_comma amounts_input). \<exists>e. py_float (strip x) = Inl e)"
    using float_all_Inl[of "split_comma amounts_input"] by simp
  with assms have "length (split_comma categories_input) \<noteq> length (split_comma amounts_input)"
    by blast
  with Inr show ?thesis using float_all_length[OF Inr] by (simp add: add_manual_def)
qed

lemma add_manual_accepted:
  assumes "length (split_comma categories_input) = length (split_comma amounts_input)"
    and "\<forall>x\<in>set (split_comma amounts_input). \<exists>v. py_float (strip x) = Inr v"
  shows "\<exists>amounts.
           map (\<lambda>x. py_float (strip x)) (split_comma amounts_input) = map Inr amounts
           \<and> add_manual categories_input amounts_input expenses =
               ([ManualAdded],
                expenses @
                map (\<lambda>(cat, amt).
                       \<lparr>Description = ascii ''Manual: '' @ cat, Amount = amt, Category = cat\<rparr>)
                    (zip (map strip (split_comma categories_input)) amounts))"
proof -
  from assms(2) have "\<not> (\<exists>e. float_all (split_comma amounts_input) = Inl e)"
    using float_all_Inl[of "split_comma amounts_input"] by auto
  then obtain vs where vs: "float_all (split_comma amounts_input) = Inr vs"
    by (cases "float_all (split_comma amounts_input)") auto
  then have m: "map (\<lambda>x. py_float (strip x)) (split_comma amounts_input) = map Inr vs"
    by (simp add: float_all_Inr)
  from vs assms(1) have "length (map strip (split_comma categories_input)) = length vs"
    using float_all_length[OF vs] by simp
  with vs have "add_manual categories_input amounts_input expenses =
               ([ManualAdded],
                expenses @
                map (\<lambda>(cat, amt).
                       \<lparr>Description = ascii ''Manual: '' @ cat, Amount = amt, Category = cat\<rparr>)
                    (zip (map strip (split_comma categories_input)) vs))"
    by (simp add: add_manual_def)
  with m show ?thesis by blast
qed

lemma split_food_transport: "split_comma (ascii ''Food, Transport'') = [ascii ''Food'', ascii '' Transport'']"
  by (simp add: ascii_def)

lemma split_100_50: "split_comma (ascii ''100, 50'') = [ascii ''100'', ascii '' 50'']"
  by (simp add: ascii_def)

lemma split_100: "split_comma (ascii ''100'') = [ascii ''100'']"
  by (simp add: ascii_def)

lemma strip_food_transport: "map strip [ascii ''Food'', ascii '' Transport''] = [ascii ''Food'', ascii ''Transport'']"
  by (simp add: ascii_def strip_def is_space_def unicode_spaces_def)

lemma float_100: "py_float (strip (ascii ''100'')) = Inr (Fin 100)"
  by (simp add: strip_def is_space_def unicode_spaces_def float_eval)

lemma float_50: "py_float (strip (ascii '' 50'')) = Inr (Fin 50)"
  by (simp add: strip_def is_space_def unicode_spaces_def float_eval)

lemma float_minus_5: "py_float (strip (ascii ''-5'')) = Inr (Fin (- 5))"
  by (simp add: strip_def is_space_def unicode_spaces_def float_eval)

lemma float_abc: "py_float (strip (ascii ''abc'')) = Inl ValueError"
  by (simp add: strip_def is_space_def unicode_spaces_def float_eval)

lemma float_nan: "py_float (strip (ascii ''nan'')) = Inr NaN"
  by (simp add: strip_def is_space_def unicode_spaces_def float_eval)

section \<open>The claims about the amount extractor\<close>

text \<open>
  Claim C8. The three reference values of the extractor hold: 600 for
  "Paid (rupee sign)600 for medicines", 0 for "no numbers here" and 45.5 for
  "INR 45.50 taxi". Only the first number of a text is used: for every text the result
  is \<^verbatim>\<open>float\<close> of the number that starts at the first decimal digit of the text, whatever
  comes before or after it, and that number is the group the search captures; so
  "20 apples and 3 pears" gives 20. When the pattern does not match, which is the case
  for every text without a decimal digit, the result is 0.
\<close>

theorem extract_amount_reference:
  "extract_amount (ascii ''Paid '' @ [8377] @ ascii ''600 for medicines'') = Inr (Fin 600)
   \<and> extract_amount (ascii ''no numbers here'') = Inr (Fin 0)
   \<and> extract_amount (ascii ''INR 45.50 taxi'') = Inr (Fin (91 / 2))
   \<and> extract_amount (ascii ''20 apples and 3 pears'') = Inr (Fin 20)
   \<and> (\<forall>text. extract_amount text =
         (case number_group (dropWhile (\<lambda>c. \<not> is_decimal c) text) of
            Some g \<Rightarrow> py_float g
          | None \<Rightarrow> Inr (Fin 0)))
   \<and> (\<forall>text. re_search text = number_group (dropWhile (\<lambda>c. \<not> is_decimal c) text))
   \<and> (\<forall>text. re_search text = None \<longrightarrow> extract_amount text = Inr (Fin 0))
   \<and> (\<forall>text. (\<forall>c\<in>set text. \<not> is_decimal c) \<longrightarrow> extract_amount text = Inr (Fin 0))"
proof -
  have "\<forall>text. re_search text = None \<longrightarrow> extract_amount text = Inr (Fin 0)"
    by (simp add: extract_amount_def)
  moreover have "\<forall>text. (\<forall>c\<in>set text. \<not> is_decimal c) \<longrightarrow> extract_amount text = Inr (Fin 0)"
    by (simp add: extract_amount_def no_decimal_no_match)
  ultimately show ?thesis
    using extract_medicines extract_no_numbers extract_taxi extract_two_numbers
      re_search_first_digit extract_amount_first_digit
    by blast
qed

theorem extract_amount_reference_witness:
  "list_all (\<lambda>c. \<not> is_decimal c) (ascii ''lunch'')
   \<and> extract_amount (ascii ''lunch'') = Inr (Fin 0)
   \<and> re_search (ascii ''7 apples and 9 pears'') = Some (ascii ''7'')
   \<and> extract_amount (ascii ''7 apples and 9 pears'') = Inr (Fin 7)"
proof -
  have h: "\<forall>c\<in>set (ascii ''lunch''). \<not> is_decimal c"
    by (simp add: ascii_def is_decimal_low)
  have g: "number_group (dropWhile (\<lambda>c. \<not> is_decimal c) (ascii ''7 apples and 9 pears''))
           = Some (ascii ''7'')"
    by (simp add: search_eval)
  have f: "py_float (ascii ''7'') = Inr (Fin 7)" by (simp add: float_eval)
  from extract_amount_reference
  have "extract_amount (ascii ''lunch'') = Inr (Fin 0)"
    and "re_search (ascii ''7 apples and 9 pears'')
         = number_group (dropWhile (\<lambda>c. \<not> is_decimal c) (ascii ''7 apples and 9 pears''))"
    and "extract_amount (ascii ''7 apples and 9 pears'') =
         (case number_group (dropWhile (\<lambda>c. \<not> is_decimal c) (ascii ''7 apples and 9 pears'')) of
            Some g \<Rightarrow> py_float g
          | None \<Rightarrow> Inr (Fin 0))"
    using h by blast+
  with h g f show ?thesis by (simp add: list_all_iff)
qed

text \<open>
  Claim C2. The claim says that a first match written with a comma, as in
  "INR 45,50", is parsed with the comma read as a decimal point, giving 45.5. The
  pattern does capture "45,50", but \<^verbatim>\<open>float\<close> does not accept a comma and raises
  \<^verbatim>\<open>ValueError\<close>. The same happens for every text whose first match contains a comma
  (lemma \<open>extract_amount_comma_general\<close>).
\<close>

theorem extract_amount_comma_raises:
  "re_search (ascii ''INR 45,50'') = Some (ascii ''45,50'')
   \<and> extract_amount (ascii ''INR 45,50'') = Inl ValueError"
proof -
  have "re_search (ascii ''INR 45,50'') = Some (ascii ''45,50'')"
    by (simp add: search_eval)
  then show ?thesis using extract_comma by simp
qed

section \<open>The claims about manual entry\<close>

text \<open>
  Claim C4. Validation of a manual entry is atomic. Whenever some element of the
  amounts field fails to parse as a number, or the number of trimmed categories
  differs from the number of amounts, the store is left exactly as it was (no record
  is appended) and a validation error is shown; the store after that run of the
  script is the store before it.
\<close>

theorem add_manual_atomic:
  assumes "(\<exists>x\<in>set (split_comma amounts_input). py_float (strip x) = Inl ValueError)
           \<or> length (map strip (split_comma categories_input))
              \<noteq> length (split_comma amounts_input)"
  shows "snd (add_manual categories_input amounts_input expenses) = expenses
         \<and> list_ex is_error (fst (add_manual categories_input amounts_input expenses))
         \<and> store_after classifier expenses (AddManual categories_input amounts_input) = expenses"
proof -
  from assms have "(\<exists>x\<in>set (split_comma amounts_input). py_float (strip x) = Inl ValueError)
           \<or> length (split_comma categories_input) \<noteq> length (split_comma amounts_input)"
    by simp
  from add_manual_rejected[OF this, of expenses]
  have s: "snd (add_manual categories_input amounts_input expenses) = expenses"
    and e: "CountsMustMatch \<in> set (fst (add_manual categories_input amounts_input expenses))"
    by simp_all
  from e have "list_ex is_error (fst (add_manual categories_input amounts_input expenses))"
    by (auto simp: list_ex_iff is_error_def)
  moreover from s have "store_after classifier expenses (AddManual categories_input amounts_input) = expenses"
    by (cases "add_manual categories_input amounts_input expenses") (simp add: store_after_def)
  ultimately show ?thesis using s by simp
qed

theorem add_manual_atomic_witness:
  "add_manual (ascii ''Food, Transport'') (ascii ''100'') example_store
     = ([CountsMustMatch], example_store)
   \<and> snd (add_manual (ascii ''Food, Transport'') (ascii ''100'') example_store) = example_store
   \<and> list_ex is_error (fst (add_manual (ascii ''Food, Transport'') (ascii ''100'') example_store))
   \<and> add_manual (ascii ''Food'') (ascii ''abc'') example_store
     = ([AmountsMustBeNumeric, CountsMustMatch], example_store)
   \<and> snd (add_manual (ascii ''Food'') (ascii ''abc'') example_store) = example_store"
proof -
  have h1: "length (map strip (split_comma (ascii ''Food, Transport'')))
            \<noteq> length (split_comma (ascii ''100''))"
    by (simp add: split_food_transport split_100)
  have sp: "split_comma (ascii ''abc'') = [ascii ''abc'']" by (simp add: ascii_def)
  have h2: "\<exists>x\<in>set (split_comma (ascii ''abc'')). py_float (strip x) = Inl ValueError"
    by (simp add: sp float_abc)
  have spf: "split_comma (ascii ''Food'') = [ascii ''Food'']" by (simp add: ascii_def)
  have e1: "add_manual (ascii ''Food, Transport'') (ascii ''100'') example_store
     = ([CountsMustMatch], example_store)"
    by (simp add: add_manual_def split_food_transport split_100 float_100)
  have e2: "add_manual (ascii ''Food'') (ascii ''abc'') example_store
     = ([AmountsMustBeNumeric, CountsMustMatch], example_store)"
    by (simp add: add_manual_def sp spf float_abc)
  show ?thesis
    using add_manual_atomic[of "ascii ''100''" "ascii ''Food, Transport''" example_store, OF disjI2, OF h1]
      add_manual_atomic[of "ascii ''abc''" "ascii ''Food''" example_store, OF disjI1, OF h2] e1 e2
    by simp
qed

text \<open>
  Claim C6. When the two fields have the same number of elements and every element
  of the amounts field parses as a number, the handler reports success and appends
  exactly one record per pair, in the order of the fields: the description is
  "Manual: " followed by the category, the amount is the parsed amount, and the
  category is the element as typed, trimmed and not checked against the fixed labels.
  The records that were there before stay first, unchanged and in order.
\<close>

theorem add_manual_appends:
  assumes "length (map strip (split_comma categories_input)) = length (split_comma amounts_input)"
    and "\<forall>x\<in>set (split_comma amounts_input). \<exists>v. py_float (strip x) = Inr v"
  shows "\<exists>amounts.
           map (\<lambda>x. py_float (strip x)) (split_comma amounts_input) = map Inr amounts
           \<and> add_manual categories_input amounts_input expenses =
               ([ManualAdded],
                expenses @
                map (\<lambda>(cat, amt).
                       \<lparr>Description = ascii ''Manual: '' @ cat, Amount = amt, Category = cat\<rparr>)
                    (zip (map strip (split_comma categories_input)) amounts))
           \<and> length (snd (add_manual categories_input amounts_input expenses))
               = length expenses + length (split_comma categories_input)"
proof -
  from assms(1) have l: "length (split_comma categories_input) = length (split_comma amounts_input)"
    by simp
  from add_manual_accepted[OF l assms(2), of expenses] obtain amounts where
    m: "map (\<lambda>x. py_float (strip x)) (split_comma amounts_input) = map Inr amounts"
    and a: "add_manual categories_input amounts_input expenses =
               ([ManualAdded],
                expenses @
                map (\<lambda>(cat, amt).
                       \<lparr>Description = ascii ''Manual: '' @ cat, Amount = amt, Category = cat\<rparr>)
                    (zip (map strip (split_comma categories_input)) amounts))"
    by blast
  from m have "length (split_comma amounts_input) = length amounts"
    by (metis length_map)
  with l a have "length (snd (add_manual categories_input amounts_input expenses))
               = length expenses + length (split_comma categories_input)"
    by simp
  with m a show ?thesis by blast
qed

theorem add_manual_appends_witness:
  "add_manual (ascii ''Food, Transport'') (ascii ''100, 50'') example_store =
     ([ManualAdded],
      example_store @
      [\<lparr>Description = ascii ''Manual: Food'', Amount = Fin 100, Category = ascii ''Food''\<rparr>,
       \<lparr>Description = ascii ''Manual: Transport'', Amount = Fin 50,
         Category = ascii ''Transport''\<rparr>])"
proof -
  have h1: "length (map strip (split_comma (ascii ''Food, Transport'')))
            = length (split_comma (ascii ''100, 50''))"
    by (simp add: split_food_transport split_100_50)
  have h2: "\<forall>x\<in>set (split_comma (ascii ''100, 50'')). \<exists>v. py_float (strip x) = Inr v"
    by (simp add: split_100_50 float_100 float_50)
  from add_manual_appends[OF h1 h2, of example_store] obtain amounts where
    m: "map (\<lambda>x. py_float (strip x)) (split_comma (ascii ''100, 50'')) = map Inr amounts"
    and a: "add_manual (ascii ''Food, Transport'') (ascii ''100, 50'') example_store =
               ([ManualAdded],
                example_store @
                map (\<lambda>(cat, amt).
                       \<lparr>Description = ascii ''Manual: '' @ cat, Amount = amt, Category = cat\<rparr>)
                    (zip (map strip (split_comma (ascii ''Food, Transport''))) amounts))"
    by blast
  from m have "map Inr amounts = [Inr (Fin 100), Inr (Fin 50) :: error + pyfloat]"
    by (simp add: split_100_50 float_100 float_50)
  then have "amounts = [Fin 100, Fin 50]" by auto
  moreover have "map strip (split_comma (ascii ''Food, Transport'')) = [ascii ''Food'', ascii ''Transport'']"
    by (simp only: split_food_transport strip_food_transport)
  moreover have "ascii ''Manual: '' @ ascii ''Food'' = ascii ''Manual: Food''"
    and "ascii ''Manual: '' @ ascii ''Transport'' = ascii ''Manual: Transport''"
    by (simp_all add: ascii_def)
  ultimately show ?thesis using a by simp
qed

section \<open>Facts about the AI handler and the store invariant\<close>

lemma labels_nonempty: "l \<in> set CATEGORY_LABELS \<Longrightarrow> l \<noteq> []"
  by (auto simp: CATEGORY_LABELS_def ascii_def)

lemma others_nonempty: "ascii ''Others'' \<noteq> []"
  by (simp add: ascii_def)

lemma classify_category_nonempty:
  assumes "classifier_labels_ok classifier"
    and "classify_category classifier text = Inr category"
  shows "category \<noteq> []"
proof (cases "classifier text CATEGORY_LABELS")
  case (Inl e)
  with assms(2) show ?thesis by (simp add: classify_category_def)
next
  case (Inr res)
  show ?thesis
  proof (cases res)
    case Falsy
    with Inr assms(2) show ?thesis by (auto simp: classify_category_def others_nonempty)
  next
    case (Truthy lo)
    show ?thesis
    proof (cases lo)
      case None
      with Inr Truthy assms(2) show ?thesis by (simp add: classify_category_def)
    next
      case (Some ls)
      with Inr Truthy assms(1) have sub: "set ls \<subseteq> set CATEGORY_LABELS"
        by (simp add: classifier_labels_ok_def)
      from Some Inr Truthy assms(2) obtain rest where "ls = category # rest"
        by (cases ls) (auto simp: classify_category_def)
      with sub have "category \<in> set CATEGORY_LABELS" by auto
      then show ?thesis by (rule labels_nonempty)
    qed
  qed
qed

lemma store_inv_append: "store_inv (xs @ ys) \<longleftrightarrow> store_inv xs \<and> store_inv ys"
  by (simp add: store_inv_def)

lemma add_ai_inv:
  assumes "classifier_labels_ok classifier" and "store_inv expenses"
    and "add_ai classifier user_input expenses = Inr (shown, expenses')"
  shows "store_inv expenses'"
proof (cases "user_input = []")
  case True
  with assms show ?thesis by (simp add: add_ai_def)
next
  case False
  with assms(3) obtain amount category where
    a: "extract_amount user_input = Inr amount"
    and c: "classify_category classifier user_input = Inr category"
    and e: "expenses' = expenses @ [\<lparr>Description = user_input, Amount = amount, Category = category\<rparr>]"
    by (auto simp: add_ai_def split: sum.splits)
  from a have "nonneg amount" using extract_amount_result[of user_input] by auto
  moreover from c have "category \<noteq> []" using classify_category_nonempty[OF assms(1)] by blast
  ultimately show ?thesis using e assms(2) by (simp add: store_inv_def)
qed

lemma add_manual_inv:
  assumes "store_inv expenses" and "manual_input_ok (AddManual categories_input amounts_input)"
  shows "store_inv (snd (add_manual categories_input amounts_input expenses))"
proof (cases "float_all (split_comma amounts_input)")
  case (Inl e)
  with assms(1) show ?thesis using split_comma_nonempty[of categories_input]
    by (simp add: add_manual_def)
next
  case (Inr xs)
  with assms(2) have c: "\<forall>cat\<in>set (map strip (split_comma categories_input)). cat \<noteq> []"
    and x: "\<forall>v\<in>set xs. nonneg v"
    by (simp_all add: list_all_iff)
  have "store_inv (map (\<lambda>(cat, amt).
                      \<lparr>Description = ascii ''Manual: '' @ cat, Amount = amt, Category = cat\<rparr>)
                   (zip (map strip (split_comma categories_input)) xs))"
    unfolding store_inv_def list_all_iff
  proof
    fix r
    assume "r \<in> set (map (\<lambda>(cat, amt).
                      \<lparr>Description = ascii ''Manual: '' @ cat, Amount = amt, Category = cat\<rparr>)
                   (zip (map strip (split_comma categories_input)) xs))"
    then obtain cat amt where z: "(cat, amt) \<in> set (zip (map strip (split_comma categories_input)) xs)"
      and r: "r = \<lparr>Description = ascii ''Manual: '' @ cat, Amount = amt, Category = cat\<rparr>"
      by auto
    from z have "cat \<in> set (map strip (split_comma categories_input))" and "amt \<in> set xs"
      by (auto dest: set_zip_leftD set_zip_rightD)
    with c x r show "nonneg (Amount r) \<and> Category r \<noteq> []" by auto
  qed
  with Inr assms(1) show ?thesis by (simp add: add_manual_def store_inv_append)
qed

lemma store_after_inv:
  assumes "classifier_labels_ok classifier" and "store_inv expenses" and "manual_input_ok a"
  shows "store_inv (store_after classifier expenses a)"
proof (cases a)
  case (AddManual c am)
  with assms show ?thesis
    using add_manual_inv[of expenses c am]
    by (cases "add_manual c am expenses") (simp add: store_after_def)
next
  case (AddAI t)
  show ?thesis
  proof (cases "add_ai classifier t expenses")
    case (Inl e)
    with AddAI assms(2) show ?thesis by (simp add: store_after_def)
  next
    case (Inr p)
    then obtain shown expenses' where "add_ai classifier t expenses = Inr (shown, expenses')"
      by (cases p) auto
    with AddAI show ?thesis using add_ai_inv[OF assms(1,2)] by (simp add: store_after_def)
  qed
next
  case ClearAll
  then show ?thesis by (simp add: store_after_def clear_all_def store_inv_def)
qed

lemma extract_taxi_45: "extract_amount (ascii ''taxi 45'') = Inr (Fin 45)"
proof -
  have "re_search (ascii ''taxi 45'') = Some (ascii ''45'')"
    by (simp add: search_eval)
  moreover have "py_float (ascii ''45'') = Inr (Fin 45)" by (simp add: float_eval)
  ultimately show ?thesis by (simp add: extract_amount_def)
qed

lemma taxi_nonempty: "ascii ''taxi 45'' \<noteq> []"
  by (simp add: ascii_def)

lemma food_classifier_ok: "classifier_labels_ok food_classifier"
  by (simp add: classifier_labels_ok_def food_classifier_def)

lemma add_ai_classifier_error:
  assumes "user_input \<noteq> []" and "extract_amount user_input = Inr amount"
    and "classifier user_input CATEGORY_LABELS = Inl e
         \<or> classifier user_input CATEGORY_LABELS = Inr (Truthy (Some []))"
  shows "(\<exists>e'. add_ai classifier user_input expenses = Inl e')
         \<and> store_after classifier expenses (AddAI user_input) = expenses"
  using assms by (auto simp: add_ai_def classify_category_def store_after_def)

lemma manual_minus_5:
  "add_manual [] (ascii ''-5'') [] =
     ([ManualAdded], [\<lparr>Description = ascii ''Manual: '', Amount = Fin (- 5), Category = []\<rparr>])"
proof -
  have "split_comma (ascii ''-5'') = [ascii ''-5'']" by (simp add: ascii_def)
  moreover have "strip [] = []" by (simp add: strip_def)
  ultimately show ?thesis by (simp add: add_manual_def float_minus_5)
qed

section \<open>The claims about the store invariant and the classifier\<close>

text \<open>
  Claim C1. The claim says that after any sequence of manual ingestions, AI
  ingestions and clear-alls every record has an amount of at least 0 and a non-empty
  category. The manual handler checks neither: one manual entry with an empty
  categories field and the amount "-5" leaves a record with amount -5 and an empty
  category (\<open>store_inv_counterexample\<close>). What holds is the claim as amended: starting
  from a store that satisfies the invariant, it holds after any sequence of the three
  operations in which every manual entry supplies non-empty trimmed categories and
  amounts that parse to values of at least 0, with a classifier that answers with
  labels of the fixed set. AI ingestion and clear-all never break it.
\<close>

theorem store_inv_preserved:
  assumes "classifier_labels_ok classifier" and "store_inv expenses"
    and "list_all manual_input_ok as"
  shows "store_inv (run classifier as expenses)"
  using assms(2,3) unfolding run_def
proof (induction as arbitrary: expenses)
  case Nil
  then show ?case by simp
next
  case (Cons a as)
  from Cons.prems have "store_inv (store_after classifier expenses a)"
    using store_after_inv[OF assms(1)] by simp
  with Cons show ?case by simp
qed

theorem store_inv_preserved_witness:
  "classifier_labels_ok food_classifier
   \<and> store_inv []
   \<and> list_all manual_input_ok
       [AddManual (ascii ''Food, Transport'') (ascii ''100, 50''), AddAI (ascii ''taxi 45''),
        ClearAll, AddAI (ascii ''INR 45.50 taxi'')]
   \<and> store_inv (run food_classifier
       [AddManual (ascii ''Food, Transport'') (ascii ''100, 50''), AddAI (ascii ''taxi 45''),
        ClearAll, AddAI (ascii ''INR 45.50 taxi'')] [])"
proof -
  have e: "store_inv []" by (simp add: store_inv_def)
  have "map strip (split_comma (ascii ''Food, Transport'')) = [ascii ''Food'', ascii ''Transport'']"
    by (simp only: split_food_transport strip_food_transport)
  moreover have "ascii ''Food'' \<noteq> []" and "ascii ''Transport'' \<noteq> []" by (simp_all add: ascii_def)
  moreover have "float_all (split_comma (ascii ''100, 50'')) = Inr [Fin 100, Fin 50]"
    by (simp add: split_100_50 float_100 float_50)
  ultimately have m: "list_all manual_input_ok
       [AddManual (ascii ''Food, Transport'') (ascii ''100, 50''), AddAI (ascii ''taxi 45''),
        ClearAll, AddAI (ascii ''INR 45.50 taxi'')]"
    by (simp add: nonneg_def)
  from store_inv_preserved[OF food_classifier_ok e m] food_classifier_ok e m
  show ?thesis by simp
qed

theorem store_inv_counterexample:
  "run empty_classifier [AddManual [] (ascii ''-5'')] [] =
     [\<lparr>Description = ascii ''Manual: '', Amount = Fin (- 5), Category = []\<rparr>]
   \<and> \<not> store_inv (run empty_classifier [AddManual [] (ascii ''-5'')] [])"
  by (simp add: run_def store_after_def manual_minus_5 store_inv_def nonneg_def)

text \<open>
  Claim C3. The claim says that whenever the classifier raises or returns no labels,
  the category defaults to "Others", the amount is still extracted and a record is
  still appended. The script defaults to "Others" only for a result that counts as
  false. When the classifier raises, for the text "taxi 45" and the store of the
  aggregation example, the exception leaves the handler: no record is appended and the
  store stays as it was. When the classifier returns a result whose list of labels is
  empty, reading its first label raises an \<^verbatim>\<open>IndexError\<close>, with the same outcome. In
  both cases the script fails to do what the claim requires.
\<close>

theorem add_ai_classifier_raises:
  "extract_amount (ascii ''taxi 45'') = Inr (Fin 45)
   \<and> add_ai failing_classifier (ascii ''taxi 45'') example_store = Inl CollaboratorError
   \<and> store_after failing_classifier example_store (AddAI (ascii ''taxi 45'')) = example_store
   \<and> add_ai no_labels_classifier (ascii ''taxi 45'') example_store = Inl IndexError
   \<and> store_after no_labels_classifier example_store (AddAI (ascii ''taxi 45'')) = example_store
   \<and> add_ai empty_classifier (ascii ''taxi 45'') example_store =
       Inr ([AIAdded (Fin 45) (ascii ''Others'')],
            example_store @ [\<lparr>Description = ascii ''taxi 45'', Amount = Fin 45,
                               Category = ascii ''Others''\<rparr>])"
  by (simp add: add_ai_def taxi_nonempty extract_taxi_45 classify_category_def
      failing_classifier_def no_labels_classifier_def empty_classifier_def store_after_def)

section \<open>Facts about the aggregation\<close>




lemma set_insert_key: "set (insert_key k xs) = insert k (set xs)"
  by (induction xs) auto



lemma set_group_keys: "set (group_keys expenses) = Category ` set expenses"
  unfolding group_keys_def
  by (induction expenses) (auto simp: set_insert_key)


lemma group_keys_nonempty: "expenses \<noteq> [] \<Longrightarrow> group_keys expenses \<noteq> []"
  using set_group_keys[of expenses] by (cases expenses) auto












lemma length_insert_desc: "length (insert_desc e ys) = Suc (length ys)"
  by (induction ys) auto

lemma length_sort_desc: "length (sort_desc es) = length es"
  unfolding sort_desc_def by (induction es) (auto simp: length_insert_desc)










lemma summary_nonempty: "expenses \<noteq> [] \<Longrightarrow> summary expenses \<noteq> []"
proof -
  assume "expenses \<noteq> []"
  then have "length (group_keys expenses) \<noteq> 0" using group_keys_nonempty by simp
  then have "length (summary expenses) \<noteq> 0"
    by (simp add: summary_def length_sort_desc grouped_def)
  then show ?thesis by auto
qed


lemma render_nonempty:
  assumes "expenses \<noteq> []" and "\<not> charts_raise (summary expenses)"
  shows "\<exists>avg. fdiv_nat (total_spent expenses) (length expenses) = Inr avg \<and>
         render charts_raise expenses user_budget =
           Inr (Some \<lparr>rep_total = total_spent expenses,
                      rep_alert = budget_alert user_budget (total_spent expenses),
                      rep_summary = summary expenses,
                      rep_avg_expense = avg,
                      rep_top_category = fst (hd (summary expenses)),
                      rep_top_amount = snd (hd (summary expenses))\<rparr>)"
proof -
  from assms(1) have "length expenses \<noteq> 0" by simp
  then obtain avg where avg: "fdiv_nat (total_spent expenses) (length expenses) = Inr avg"
    by (simp add: fdiv_nat_def)
  from summary_nonempty[OF assms(1)] obtain row rows where "summary expenses = row # rows"
    by (cases "summary expenses") auto
  with avg assms show ?thesis by (simp add: render_def iloc0_def)
qed

lemma render_chart_error:
  "expenses \<noteq> [] \<Longrightarrow> charts_raise (summary expenses) \<Longrightarrow>
   render charts_raise expenses user_budget = Inl ChartError"
  by (simp add: render_def)

lemma render_Some:
  assumes "render charts_raise expenses user_budget = Inr (Some r)"
  shows "expenses \<noteq> [] \<and> \<not> charts_raise (summary expenses)"
  using assms by (auto simp: render_def split: if_splits)

lemma render_errors:
  "render charts_raise expenses user_budget = Inl e \<Longrightarrow> e = ChartError"
proof (cases "expenses = []")
  case True
  then show "render charts_raise expenses user_budget = Inl e \<Longrightarrow> e = ChartError"
    by (simp add: render_def)
next
  case False
  assume a: "render charts_raise expenses user_budget = Inl e"
  show "e = ChartError"
  proof (cases "charts_raise (summary expenses)")
    case True
    with a False show ?thesis by (simp add: render_def)
  next
    case nr: False
    from render_nonempty[of expenses charts_raise user_budget, OF False nr] a show ?thesis by auto
  qed
qed


lemma example_total: "total_spent example_store = Fin 175"
  by (simp add: total_spent_def example_store_def sum_skipna_def round_double_numeral)

lemma example_keys: "group_keys example_store = [ascii ''Food'', ascii ''Transport'']"
  by (simp add: group_keys_def example_store_def ascii_def)

lemma example_grouped:
  "grouped example_store = [(ascii ''Food'', Fin 150), (ascii ''Transport'', Fin 25)]"
  unfolding grouped_def example_keys
  by (simp add: group_sum_def example_store_def sum_skipna_def ascii_def round_double_numeral)

lemma example_summary:
  "summary example_store = [(ascii ''Food'', Fin 150), (ascii ''Transport'', Fin 25)]"
  unfolding summary_def example_grouped
  by (simp add: sort_desc_def sorts_before_def)

lemma example_nonempty: "example_store \<noteq> []"
  by (simp add: example_store_def)


lemma example_average:
  "fdiv_nat (total_spent example_store) (length example_store)
     = Inr (Fin (8209686820727467 / 140737488355328))"
proof -
  have "length example_store = 3" by (simp add: example_store_def)
  moreover have "round_double (of_nat 3) = Fin 3"
    using round_double_of_nat[of 3] by simp
  ultimately show ?thesis
    by (simp add: example_total fdiv_nat_def round_double_175_3)
qed

lemma example_render:
  "render charts_ok example_store user_budget =
     Inr (Some \<lparr>rep_total = Fin 175,
                rep_alert = budget_alert user_budget (Fin 175),
                rep_summary = [(ascii ''Food'', Fin 150), (ascii ''Transport'', Fin 25)],
                rep_avg_expense = Fin (8209686820727467 / 140737488355328),
                rep_top_category = ascii ''Food'',
                rep_top_amount = Fin 150\<rparr>)"
proof -
  have ok: "\<not> charts_ok (summary example_store)" by (simp add: charts_ok_def)
  from render_nonempty[of example_store charts_ok user_budget, OF example_nonempty ok]
  obtain avg where a: "fdiv_nat (total_spent example_store) (length example_store) = Inr avg"
    and r: "render charts_ok example_store user_budget =
           Inr (Some \<lparr>rep_total = total_spent example_store,
                      rep_alert = budget_alert user_budget (total_spent example_store),
                      rep_summary = summary example_store,
                      rep_avg_expense = avg,
                      rep_top_category = fst (hd (summary example_store)),
                      rep_top_amount = snd (hd (summary example_store))\<rparr>)"
    by blast
  from a have "avg = Fin (8209686820727467 / 140737488355328)"
    by (simp only: example_average sum.inject)
  with r show ?thesis by (simp add: example_total example_summary)
qed

lemma example_alert:
  "alert_shown example_store user_budget = budget_alert user_budget (Fin 175)"
  by (simp add: alert_shown_def example_nonempty example_total)

lemma rounded_total: "total_spent rounded_store = Fin 10000000000000000"
proof -
  have "round_double 10000000000000001 = Fin 10000000000000000"
    using round_double_tie by simp
  then show ?thesis
    by (simp add: total_spent_def rounded_store_def sum_skipna_def round_double_big)
qed

lemma run_append: "run classifier (as @ bs) expenses = run classifier bs (run classifier as expenses)"
  by (simp add: run_def)

section \<open>The claims about aggregation, the budget and clear-all\<close>



text \<open>
  Claim C7. The budget notice is shown right after the total is computed, for every
  non-empty store, from the budget and the total. When the budget is positive, the
  notice flags the store as over budget exactly when the total is greater than the
  budget, the total being the one the script computed, in doubles. With the total 175
  the budget 100 is exceeded and the budget 200 is not. With the budget 0 no budget
  notice is produced at all. Whenever the block runs to its end, the report carries
  the same total and the same notice. The total of 10000000000000000 and 1 is
  10000000000000000 in doubles, so that store is within a budget of 10000000000000000.
\<close>

theorem budget_check:
  "(0 < user_budget \<longrightarrow>
      alert_flag (budget_alert user_budget t) = Some (fgt t (Fin user_budget)))
   \<and> (user_budget = 0 \<longrightarrow>
        budget_alert user_budget t = None \<and> alert_flag (budget_alert user_budget t) = None)
   \<and> (expenses \<noteq> [] \<longrightarrow>
        alert_shown expenses user_budget = budget_alert user_budget (total_spent expenses))
   \<and> (\<forall>r. render charts_raise expenses user_budget = Inr (Some r) \<longrightarrow>
          rep_total r = total_spent expenses
          \<and> rep_alert r = alert_shown expenses user_budget
          \<and> over_budget r = alert_flag (alert_shown expenses user_budget))
   \<and> total_spent example_store = Fin 175
   \<and> alert_flag (alert_shown example_store 100) = Some True
   \<and> alert_flag (alert_shown example_store 200) = Some False
   \<and> alert_flag (alert_shown example_store 0) = None
   \<and> total_spent rounded_store = Fin 10000000000000000
   \<and> alert_flag (alert_shown rounded_store 10000000000000000) = Some False"
proof (intro conjI impI allI)
  assume "0 < user_budget"
  then show "alert_flag (budget_alert user_budget t) = Some (fgt t (Fin user_budget))"
    by (simp add: alert_flag_def budget_alert_def)
next
  assume "user_budget = 0"
  then show "budget_alert user_budget t = None" by (simp add: budget_alert_def)
next
  assume "user_budget = 0"
  then show "alert_flag (budget_alert user_budget t) = None"
    by (simp add: alert_flag_def budget_alert_def)
next
  assume "expenses \<noteq> []"
  then show "alert_shown expenses user_budget = budget_alert user_budget (total_spent expenses)"
    by (simp add: alert_shown_def)
next
  fix r
  assume a: "render charts_raise expenses user_budget = Inr (Some r)"
  from render_Some[OF a] have ne: "expenses \<noteq> []" and ok: "\<not> charts_raise (summary expenses)"
    by simp_all
  from render_nonempty[of expenses charts_raise user_budget, OF ne ok] a
  have t: "rep_total r = total_spent expenses"
    and al: "rep_alert r = budget_alert user_budget (total_spent expenses)"
    by auto
  from t show "rep_total r = total_spent expenses" .
  from al ne show "rep_alert r = alert_shown expenses user_budget"
    by (simp add: alert_shown_def)
  from al ne show "over_budget r = alert_flag (alert_shown expenses user_budget)"
    by (simp add: alert_shown_def over_budget_def)
next
  show "total_spent example_store = Fin 175" by (rule example_total)
next
  show "alert_flag (alert_shown example_store 100) = Some True"
    by (simp add: example_alert alert_flag_def budget_alert_def)
next
  show "alert_flag (alert_shown example_store 200) = Some False"
    by (simp add: example_alert alert_flag_def budget_alert_def)
next
  show "alert_flag (alert_shown example_store 0) = None"
    by (simp add: example_alert alert_flag_def budget_alert_def)
next
  show "total_spent rounded_store = Fin 10000000000000000" by (rule rounded_total)
next
  have "rounded_store \<noteq> []" by (simp add: rounded_store_def)
  then show "alert_flag (alert_shown rounded_store 10000000000000000) = Some False"
    by (simp add: alert_shown_def rounded_total alert_flag_def budget_alert_def)
qed

theorem budget_check_witness:
  "(0::rat) < 100 \<and> example_store \<noteq> []
   \<and> alert_flag (budget_alert 100 (Fin 175)) = Some True
   \<and> alert_flag (budget_alert 200 (Fin 175)) = Some False
   \<and> budget_alert 0 (Fin 175) = None
   \<and> alert_shown example_store 100 = Some (BudgetExceeded 100 (Fin 175))
   \<and> (\<exists>r. render charts_ok example_store 100 = Inr (Some r)
          \<and> rep_total r = Fin 175 \<and> over_budget r = Some True)"
proof -
  have p: "(0::rat) < 100" and q: "(0::rat) < 200" by simp_all
  from budget_check[of 100 "Fin 175" example_store charts_ok] p
  have a1: "alert_flag (budget_alert 100 (Fin 175)) = Some (fgt (Fin 175) (Fin 100))"
    by blast
  from budget_check[of 200 "Fin 175" example_store charts_ok] q
  have a2: "alert_flag (budget_alert 200 (Fin 175)) = Some (fgt (Fin 175) (Fin 200))"
    by blast
  from budget_check[of 0 "Fin 175" example_store charts_ok]
  have a3: "budget_alert 0 (Fin 175) = None"
    and t: "total_spent example_store = Fin 175"
    by blast+
  from budget_check[of 100 "Fin 175" example_store charts_ok] example_nonempty
  have a4: "alert_shown example_store 100 = budget_alert 100 (total_spent example_store)"
    and a5: "\<forall>r. render charts_ok example_store 100 = Inr (Some r) \<longrightarrow>
          rep_total r = total_spent example_store
          \<and> rep_alert r = alert_shown example_store 100
          \<and> over_budget r = alert_flag (alert_shown example_store 100)"
    by blast+
  obtain r where r: "render charts_ok example_store 100 = Inr (Some r)"
    by (simp add: example_render)
  with a5 have "rep_total r = total_spent example_store"
    and "over_budget r = alert_flag (alert_shown example_store 100)" by simp_all
  with a1 a2 a3 a4 t r p example_nonempty show ?thesis
    by (simp add: budget_alert_def)
qed

text \<open>
  Claim C9. After any sequence of actions, clear-all leaves the store empty, and on the
  empty store the aggregation block is skipped: nothing is computed and no chart is
  drawn. The block is skipped only for the empty store. The division of the total by
  the number of records raises only for zero records, and the block never ends with
  that error: whenever the average is computed the number of records is positive.
\<close>

theorem clear_all_empties:
  "run classifier (as @ [ClearAll]) expenses = []
   \<and> handle classifier ClearAll expenses = Inr ([Cleared], [])
   \<and> render charts_raise (run classifier (as @ [ClearAll]) expenses) user_budget = Inr None
   \<and> (render charts_raise expenses user_budget = Inr None) = (expenses = [])
   \<and> render charts_raise expenses user_budget \<noteq> Inl DivisionByZero
   \<and> (fdiv_nat t n = Inl DivisionByZero) = (n = 0)
   \<and> (\<forall>r. render charts_raise expenses user_budget = Inr (Some r) \<longrightarrow>
          0 < length expenses
          \<and> fdiv_nat (total_spent expenses) (length expenses) = Inr (rep_avg_expense r))"
proof -
  have c: "run classifier (as @ [ClearAll]) expenses = []"
    by (simp add: run_append) (simp add: run_def store_after_def clear_all_def)
  have n: "(render charts_raise expenses user_budget = Inr None) = (expenses = [])"
  proof (cases "expenses = []")
    case True
    then show ?thesis by (simp add: render_def)
  next
    case False
    show ?thesis
    proof (cases "charts_raise (summary expenses)")
      case True
      with False show ?thesis by (simp add: render_def)
    next
      case nr: False
      from render_nonempty[of expenses charts_raise user_budget, OF False nr] False show ?thesis by auto
    qed
  qed
  have z: "render charts_raise expenses user_budget \<noteq> Inl DivisionByZero"
    using render_errors[of charts_raise expenses user_budget DivisionByZero] by auto
  have f: "(fdiv_nat t n = Inl DivisionByZero) = (n = 0)"
    by (simp add: fdiv_nat_def)
  have d: "\<forall>r. render charts_raise expenses user_budget = Inr (Some r) \<longrightarrow>
          0 < length expenses
          \<and> fdiv_nat (total_spent expenses) (length expenses) = Inr (rep_avg_expense r)"
  proof (intro allI impI)
    fix r assume a: "render charts_raise expenses user_budget = Inr (Some r)"
    from render_Some[OF a] have ne: "expenses \<noteq> []" and ok: "\<not> charts_raise (summary expenses)"
      by simp_all
    from render_nonempty[of expenses charts_raise user_budget, OF ne ok] a ne
    show "0 < length expenses
          \<and> fdiv_nat (total_spent expenses) (length expenses) = Inr (rep_avg_expense r)"
      by auto
  qed
  from c n z f d show ?thesis
    by (simp add: clear_all_def render_def)
qed

theorem clear_all_empties_witness:
  "run food_classifier
     [AddManual (ascii ''Food, Transport'') (ascii ''100, 50''), AddAI (ascii ''taxi 45''),
      ClearAll] example_store = []
   \<and> render charts_fail (run food_classifier
       [AddManual (ascii ''Food, Transport'') (ascii ''100, 50''), AddAI (ascii ''taxi 45''),
        ClearAll] example_store) 100 = Inr None
   \<and> (\<exists>r. render charts_ok example_store 100 = Inr (Some r)
          \<and> fdiv_nat (total_spent example_store) (length example_store) = Inr (rep_avg_expense r))"
proof -
  from clear_all_empties[of food_classifier
      "[AddManual (ascii ''Food, Transport'') (ascii ''100, 50''), AddAI (ascii ''taxi 45'')]"
      example_store charts_fail 100 "Fin 0" 0]
  have "run food_classifier
     [AddManual (ascii ''Food, Transport'') (ascii ''100, 50''), AddAI (ascii ''taxi 45''),
      ClearAll] example_store = []"
    and "render charts_fail (run food_classifier
       [AddManual (ascii ''Food, Transport'') (ascii ''100, 50''), AddAI (ascii ''taxi 45''),
        ClearAll] example_store) 100 = Inr None"
    by (simp_all add: render_def)
  moreover from clear_all_empties[of food_classifier "[]" example_store charts_ok 100 "Fin 0" 0]
  have "\<forall>r. render charts_ok example_store 100 = Inr (Some r) \<longrightarrow>
          fdiv_nat (total_spent example_store) (length example_store) = Inr (rep_avg_expense r)"
    by simp
  ultimately show ?thesis by (simp add: example_render)
qed

text \<open>
  Claim C10. For every budget that is zero or negative the budget check is skipped
  exactly as for the budget 0: no notice is produced and the whole report is the one
  of the budget 0. A budget notice, and so the comparison of the total with the
  budget, occurs only for a positive budget.
\<close>

theorem budget_nonpositive_skipped:
  "(user_budget \<le> 0 \<longrightarrow>
      budget_alert user_budget t = None
      \<and> alert_shown expenses user_budget = None
      \<and> render charts_raise expenses user_budget = render charts_raise expenses 0)
   \<and> (budget_alert user_budget t \<noteq> None \<longrightarrow> 0 < user_budget)
   \<and> (alert_shown expenses user_budget \<noteq> None \<longrightarrow> 0 < user_budget)
   \<and> (\<forall>r. render charts_raise expenses user_budget = Inr (Some r) \<and> over_budget r \<noteq> None
          \<longrightarrow> 0 < user_budget)"
proof (intro conjI impI allI)
  assume "user_budget \<le> 0"
  then show "budget_alert user_budget t = None" by (simp add: budget_alert_def)
next
  assume "user_budget \<le> 0"
  then show "alert_shown expenses user_budget = None"
    by (simp add: alert_shown_def budget_alert_def)
next
  assume "user_budget \<le> 0"
  then have eq: "budget_alert user_budget = budget_alert 0"
    by (intro ext) (simp add: budget_alert_def)
  show "render charts_raise expenses user_budget = render charts_raise expenses 0"
    unfolding render_def eq by (rule refl)
next
  assume "budget_alert user_budget t \<noteq> None"
  then show "0 < user_budget" by (simp add: budget_alert_def split: if_splits)
next
  assume "alert_shown expenses user_budget \<noteq> None"
  then show "0 < user_budget" by (simp add: alert_shown_def budget_alert_def split: if_splits)
next
  fix r
  assume a: "render charts_raise expenses user_budget = Inr (Some r) \<and> over_budget r \<noteq> None"
  from a render_Some[of charts_raise expenses user_budget r]
  have ne: "expenses \<noteq> []" and ok: "\<not> charts_raise (summary expenses)" by simp_all
  from render_nonempty[of expenses charts_raise user_budget, OF ne ok] a
  have "rep_alert r = budget_alert user_budget (total_spent expenses)" by auto
  with a show "0 < user_budget"
    by (auto simp: over_budget_def alert_flag_def budget_alert_def split: if_splits)
qed

theorem budget_nonpositive_skipped_witness:
  "(- 50 :: rat) \<le> 0
   \<and> budget_alert (- 50) (Fin 175) = None
   \<and> alert_shown example_store (- 50) = None
   \<and> render charts_ok example_store (- 50) = render charts_ok example_store 0
   \<and> (\<exists>r. render charts_ok example_store (- 50) = Inr (Some r) \<and> over_budget r = None)"
proof -
  have h: "(- 50 :: rat) \<le> 0" by simp
  from budget_nonpositive_skipped[of "- 50" "Fin 175" example_store charts_ok] h
  have "budget_alert (- 50) (Fin 175) = None"
    and "alert_shown example_store (- 50) = None"
    and "render charts_ok example_store (- 50) = render charts_ok example_store 0"
    by simp_all
  then show ?thesis
    by (simp add: example_render over_budget_def alert_flag_def budget_alert_def)
qed

end
